theory Spec2Isabelle
  imports Main "HOL-Library.Word"
begin

unbundle bit_operations_syntax

section \<open>Data model\<close>

text \<open>
  \<open>byte\<close> is the Arduino \<open>byte\<close> (\<open>unsigned char\<close>), \<open>int16_t\<close> the 16-bit signed integer.
  \<open>cint\<close> stands for \<open>int\<close> and \<open>unsigned int\<close>, taken at 32 bits; signedness is chosen by
  the operation (\<open>sint\<close>, \<open>signed_drop_bit\<close>), as in C. Sums of a few promoted bytes, which
  C computes in \<open>int\<close> without overflow, are written on \<open>nat\<close> and truncated by \<open>of_nat\<close>
  where the source stores them into a \<open>byte\<close>. Byte counts returned by the port are \<open>int\<close>.
\<close>

type_synonym byte = "8 word"
type_synonym int16_t = "16 word"
type_synonym cint = "32 word"

subsection \<open>namespace instruction\<close>

definition PING :: byte where "PING = 0x01"
definition READ :: byte where "READ = 0x02"
definition WRITE :: byte where "WRITE = 0x03"
definition REGWRITE :: byte where "REGWRITE = 0x04"
definition ACTION :: byte where "ACTION = 0x05"
definition SYNCWRITE :: byte where "SYNCWRITE = 0x83"
definition RESET :: byte where "RESET = 0x06"

subsection \<open>Constants of the header\<close>

text \<open>
  The register offsets of namespace \<open>STSRegisters\<close> and the default value of the
  \<open>asynchronous\<close> argument are declared in STSServoDriver.h. Every function that uses
  one of them takes this record as its first argument.
\<close>

record STSRegisters =
  WRITE_LOCK :: byte
  ID :: byte
  POSITION_CORRECTION :: byte
  CURRENT_POSITION :: byte
  CURRENT_SPEED :: byte
  CURRENT_TEMPERATURE :: byte
  MOVING_STATUS :: byte
  TARGET_POSITION :: byte
  RUNNING_SPEED :: byte
  TARGET_ACCELERATION :: byte
  asynchronous_default :: bool

subsection \<open>The driver object and its serial port\<close>

text \<open>
  The state threaded through every member function: the level last written to the
  direction pin \<open>dirPin_\<close>, every byte handed to \<open>port_->write\<close> so far (in order), the
  port's receive buffer, and the rest of the bus. The bus is any deterministic machine
  \<open>line\<close> with a state \<open>env\<close>: given the bytes of one \<open>write\<close> call it tells the byte
  count the port reports, the bytes that arrive in the receive buffer afterwards, and
  its next state.
\<close>

record 'e driver =
  dirPin_high :: bool
  written :: "byte list"
  rxbuf :: "byte list"
  env :: 'e
  line :: "'e \<Rightarrow> byte list \<Rightarrow> int \<times> byte list \<times> 'e"

definition digitalWrite :: "bool \<Rightarrow> 'e driver \<Rightarrow> 'e driver" where
  "digitalWrite level s = s\<lparr>dirPin_high := level\<rparr>"

text \<open>\<open>port_->write(buffer, size)\<close> and \<open>port_->write(b)\<close>.\<close>

definition port_write :: "byte list \<Rightarrow> 'e driver \<Rightarrow> int \<times> 'e driver" where
  "port_write bs s =
     (case line s (env s) bs of
        (ret, arrived, e') \<Rightarrow>
          (ret, s\<lparr>written := written s @ bs, rxbuf := rxbuf s @ arrived, env := e'\<rparr>))"

definition port_write1 :: "byte \<Rightarrow> 'e driver \<Rightarrow> 'e driver" where
  "port_write1 b s = snd (port_write [b] s)"

text \<open>
  \<open>port_->readBytes(buffer, n)\<close>: the bytes read, at most \<open>n\<close>; fewer when the buffer
  runs dry before the timeout. The count it returns is the length of the list.
\<close>

definition port_readBytes :: "nat \<Rightarrow> 'e driver \<Rightarrow> byte list \<times> 'e driver" where
  "port_readBytes n s = (take n (rxbuf s), s\<lparr>rxbuf := drop n (rxbuf s)\<rparr>)"

text \<open>\<open>port_->read()\<close>: the next byte, or -1 when the buffer is empty.\<close>

definition port_read :: "'e driver \<Rightarrow> int \<times> 'e driver" where
  "port_read s =
     (case rxbuf s of
        [] \<Rightarrow> (- 1, s)
      | b # bs \<Rightarrow> (uint b, s\<lparr>rxbuf := bs\<rparr>))"

section \<open>Frame codec\<close>

subsection \<open>sendMessage\<close>

text \<open>The \<open>for\<close> loop of \<open>sendMessage\<close>, on the message buffer and the checksum.\<close>

function sendMessage_loop ::
  "nat \<Rightarrow> nat \<Rightarrow> byte list \<Rightarrow> byte list \<Rightarrow> byte \<Rightarrow> byte list \<times> byte" where
  "sendMessage_loop i paramLength parameters message checksum =
     (if i < paramLength
      then sendMessage_loop (i + 1) paramLength parameters
             (message[5 + i := parameters ! i]) (checksum + parameters ! i)
      else (message, checksum))"
  by pat_completeness auto
termination
  by (relation "measure (\<lambda>(i, n, ps, m, c). n - i)") auto

text \<open>
  The message buffer is a variable-length array of \<open>6 + paramLength\<close> bytes, every
  cell of which is assigned before the write; it starts here as zeros.
\<close>

definition sendMessage ::
  "byte \<Rightarrow> byte \<Rightarrow> byte \<Rightarrow> byte list \<Rightarrow> 'e driver \<Rightarrow> int \<times> 'e driver" where
  "sendMessage servoId commandID paramLength parameters s =
     (let n = unat paramLength;
          message0 = replicate (6 + n) (0 :: byte);
          checksum0 = (of_nat (unat servoId + n + 2 + unat commandID) :: byte);
          message1 = message0[0 := 0xFF, 1 := 0xFF, 2 := servoId,
                              3 := of_nat (n + 2), 4 := commandID];
          (message2, checksum) = sendMessage_loop 0 n parameters message1 checksum0;
          message3 = message2[5 + n := NOT checksum];
          s1 = digitalWrite True s;
          (ret, s2) = port_write message3 s1;
          s3 = digitalWrite False s2
      in (ret, s3))"

subsection \<open>receiveMessage\<close>

text \<open>The checksum loop and the copy loop of \<open>receiveMessage\<close>.\<close>

function receiveMessage_sum :: "nat \<Rightarrow> nat \<Rightarrow> byte list \<Rightarrow> byte \<Rightarrow> byte" where
  "receiveMessage_sum i bound result checksum =
     (if i < bound
      then receiveMessage_sum (i + 1) bound result (checksum + result ! i)
      else checksum)"
  by pat_completeness auto
termination
  by (relation "measure (\<lambda>(i, n, r, c). n - i)") auto

text \<open>
  \<open>for (int i = 0; i < n; i++) outputBuffer[i] = result[i + offset];\<close>, the copy loop of
  \<open>receiveMessage\<close> (offset 4) and of \<open>readRegisters\<close> (offset 1).
\<close>

function copy_loop :: "nat \<Rightarrow> nat \<Rightarrow> nat \<Rightarrow> byte list \<Rightarrow> byte list \<Rightarrow> byte list" where
  "copy_loop i n offset result outputBuffer =
     (if i < n
      then copy_loop (i + 1) n offset result (outputBuffer[i := result ! (i + offset)])
      else outputBuffer)"
  by pat_completeness auto
termination
  by (relation "measure (\<lambda>(i, n, off, r, out). n - i)") auto

text \<open>
  The result is \<open>Inl rc\<close> for the negative return codes -1, -2, -3 (the output buffer is
  then untouched) and \<open>Inr\<close> of the output buffer for the return code 0.
\<close>

definition receiveMessage ::
  "byte \<Rightarrow> byte \<Rightarrow> byte list \<Rightarrow> 'e driver \<Rightarrow> (int + byte list) \<times> 'e driver" where
  "receiveMessage servoId readLength outputBuffer s =
     (let s1 = digitalWrite False s;
          n = unat readLength;
          (result, s2) = port_readBytes (n + 5) s1
      in if length result \<noteq> n + 5 then (Inl (- 1), s2)
         else if result ! 0 \<noteq> 0xFF \<or> result ! 1 \<noteq> 0xFF \<or> result ! 2 \<noteq> servoId
                 \<or> unat (result ! 3) \<noteq> n + 1 then (Inl (- 2), s2)
         else let checksum = NOT (receiveMessage_sum 2 (n + 4) result 0)
              in if result ! (n + 4) \<noteq> checksum then (Inl (- 3), s2)
                 else (Inr (copy_loop 0 n 4 result outputBuffer), s2))"

section \<open>Register access layer\<close>

text \<open>The \<open>for\<close> loop of \<open>writeRegisters\<close>: \<open>param[i + 1] = parameters[i]\<close>.\<close>

function writeRegisters_loop :: "nat \<Rightarrow> nat \<Rightarrow> byte list \<Rightarrow> byte list \<Rightarrow> byte list" where
  "writeRegisters_loop i writeLength parameters param =
     (if i < writeLength
      then writeRegisters_loop (i + 1) writeLength parameters (param[i + 1 := parameters ! i])
      else param)"
  by pat_completeness auto
termination
  by (relation "measure (\<lambda>(i, n, ps, p). n - i)") auto

text \<open>
  \<open>writeLength + 1\<close> is an \<open>int\<close>; passing it as the \<open>byte\<close> \<open>paramLength\<close> of
  \<open>sendMessage\<close> truncates it.
\<close>

definition writeRegisters ::
  "byte \<Rightarrow> byte \<Rightarrow> byte \<Rightarrow> byte list \<Rightarrow> bool \<Rightarrow> 'e driver \<Rightarrow> bool \<times> 'e driver" where
  "writeRegisters servoId startRegister writeLength parameters asynchronous s =
     (let n = unat writeLength;
          param0 = replicate (n + 1) (0 :: byte);
          param1 = param0[0 := startRegister];
          param2 = writeRegisters_loop 0 n parameters param1;
          (rc, s') = sendMessage servoId (if asynchronous then REGWRITE else WRITE)
                       (of_nat (n + 1)) param2 s
      in (rc = int n + 7, s'))"

definition writeRegister ::
  "byte \<Rightarrow> byte \<Rightarrow> byte \<Rightarrow> bool \<Rightarrow> 'e driver \<Rightarrow> bool \<times> 'e driver" where
  "writeRegister servoId registerId val asynchronous s =
     writeRegisters servoId registerId 1 [val] asynchronous s"

text \<open>
  The two parameter bytes of \<open>writeTwoBytesRegister\<close>; \<open>value\<close> is promoted to \<open>int\<close>
  and \<open>>>\<close> on it is the arithmetic shift.
\<close>

definition writeTwoBytesRegister_params :: "int16_t \<Rightarrow> byte list" where
  "writeTwoBytesRegister_params val =
     [ucast ((scast val :: cint) AND 0xFF),
      ucast (signed_drop_bit 8 (scast val :: cint) AND 0xFF)]"

definition writeTwoBytesRegister ::
  "byte \<Rightarrow> byte \<Rightarrow> int16_t \<Rightarrow> bool \<Rightarrow> 'e driver \<Rightarrow> bool \<times> 'e driver" where
  "writeTwoBytesRegister servoId registerId val asynchronous s =
     writeRegisters servoId registerId 2 (writeTwoBytesRegister_params val) asynchronous s"

text \<open>\<open>while (port_->read() != -1);\<close>\<close>

function flush :: "'e driver \<Rightarrow> 'e driver" where
  "flush s = (case port_read s of (r, s') \<Rightarrow> if r \<noteq> - 1 then flush s' else s')"
  by pat_completeness auto
termination
  by (relation "measure (\<lambda>s. length (rxbuf s))")
    (auto simp: port_read_def split: list.splits)

text \<open>
  The local array \<open>result\<close> has \<open>readLength + 1\<close> cells, which the source leaves
  uninitialised; it starts here as zeros. \<open>readLength + 1\<close>, an \<open>int\<close>, is truncated to the
  \<open>byte\<close> argument of \<open>receiveMessage\<close>. For every \<open>readLength\<close> below 255 a successful
  \<open>receiveMessage\<close> overwrites all the cells that are copied out. At 255 the argument wraps
  to 0, \<open>receiveMessage\<close> fills nothing, and the 255 bytes copied out are whatever the array
  held: the zeros of this model stand for unspecified bytes there, and nothing below is
  stated about them.
\<close>

definition readRegisters ::
  "byte \<Rightarrow> byte \<Rightarrow> byte \<Rightarrow> byte list \<Rightarrow> 'e driver \<Rightarrow> (int + byte list) \<times> 'e driver" where
  "readRegisters servoId startRegister readLength outputBuffer s =
     (let readParam = [startRegister, readLength];
          s1 = flush s;
          (send, s2) = sendMessage servoId READ 2 readParam s1
      in if send \<noteq> 8 then (Inl (- 1), s2)
         else let n = unat readLength;
                  result = replicate (n + 1) (0 :: byte);
                  (rd, s3) = receiveMessage servoId (of_nat (n + 1)) result s2
              in case rd of
                   Inl rc \<Rightarrow> (Inl rc, s3)
                 | Inr result' \<Rightarrow> (Inr (copy_loop 0 n 1 result' outputBuffer), s3))"

definition readRegister :: "byte \<Rightarrow> byte \<Rightarrow> 'e driver \<Rightarrow> byte \<times> 'e driver" where
  "readRegister servoId registerId s =
     (case readRegisters servoId registerId 1 [0] s of
        (Inl rc, s') \<Rightarrow> (0, s')
      | (Inr result, s') \<Rightarrow> (result ! 0, s'))"

text \<open>\<open>result[0] + (result[1] << 8)\<close>, computed in \<open>int\<close> and returned as \<open>int16_t\<close>.\<close>

definition fromTwoBytes :: "byte list \<Rightarrow> int16_t" where
  "fromTwoBytes result =
     ucast ((ucast (result ! 0) :: cint) + push_bit 8 (ucast (result ! 1) :: cint))"

definition readTwoBytesRegister :: "byte \<Rightarrow> byte \<Rightarrow> 'e driver \<Rightarrow> int16_t \<times> 'e driver" where
  "readTwoBytesRegister servoId registerId s =
     (case readRegisters servoId registerId 2 [0, 0] s of
        (Inl rc, s') \<Rightarrow> (0, s')
      | (Inr result, s') \<Rightarrow> (fromTwoBytes result, s'))"

section \<open>Device operations\<close>

text \<open>
  Two member functions are left out: \<open>setMode\<close>, whose body writes the operation-mode
  register and ends without a \<open>return\<close>, and \<open>getCurrentCurrent\<close>, which scales the register
  by the floating-point factor 0.0065.
\<close>

definition ping :: "byte \<Rightarrow> 'e driver \<Rightarrow> bool \<times> 'e driver" where
  "ping servoId s =
     (let response = [0xFF :: byte];
          (send, s1) = sendMessage servoId PING 0 response s
      in if send \<noteq> 6 then (False, s1)
         else case receiveMessage servoId 1 response s1 of
                (Inl rc, s2) \<Rightarrow> (False, s2)
              | (Inr response', s2) \<Rightarrow> (response' ! 0 = 0x00, s2))"

text \<open>
  The sweep of \<open>init\<close>: \<open>for (byte i = 0; i < 0xFE; i++) if (ping(i)) return true;\<close>
  and \<open>return false\<close> after it.
\<close>

function init_loop :: "byte \<Rightarrow> 'e driver \<Rightarrow> bool \<times> 'e driver" where
  "init_loop i s =
     (if i < 0xFE
      then (case ping i s of
              (True, s') \<Rightarrow> (True, s')
            | (False, s') \<Rightarrow> init_loop (i + 1) s')
      else (False, s))"
  by pat_completeness auto
termination
  by (relation "measure (\<lambda>(i, s). 254 - unat i)")
    (auto simp: word_less_nat_alt unat_word_ariths)

text \<open>
  \<open>init\<close>: opening the port (\<open>begin\<close>, \<open>setTimeout\<close>, \<open>pinMode\<close>) belongs to the transport
  and leaves this state as it is; the result is that of the sweep.
\<close>

definition init :: "'e driver \<Rightarrow> bool \<times> 'e driver" where
  "init s = init_loop 0 s"

definition setId :: "STSRegisters \<Rightarrow> byte \<Rightarrow> byte \<Rightarrow> 'e driver \<Rightarrow> bool \<times> 'e driver" where
  "setId R oldServoId newServoId s =
     (if oldServoId \<ge> 0xFE \<or> newServoId \<ge> 0xFE then (False, s)
      else case ping newServoId s of
        (True, s1) \<Rightarrow> (False, s1)
      | (False, s1) \<Rightarrow>
          (case writeRegister oldServoId (WRITE_LOCK R) 0 (asynchronous_default R) s1 of
             (False, s2) \<Rightarrow> (False, s2)
           | (True, s2) \<Rightarrow>
               (case writeRegister oldServoId (ID R) newServoId (asynchronous_default R) s2 of
                  (False, s3) \<Rightarrow> (False, s3)
                | (True, s3) \<Rightarrow>
                    (case writeRegister newServoId (WRITE_LOCK R) 1 (asynchronous_default R) s3 of
                       (False, s4) \<Rightarrow> (False, s4)
                     | (True, s4) \<Rightarrow> ping newServoId s4))))"

definition setPositionOffset ::
  "STSRegisters \<Rightarrow> byte \<Rightarrow> cint \<Rightarrow> 'e driver \<Rightarrow> bool \<times> 'e driver" where
  "setPositionOffset R servoId positionOffset s =
     (case writeRegister servoId (WRITE_LOCK R) 0 (asynchronous_default R) s of
        (False, s1) \<Rightarrow> (False, s1)
      | (True, s1) \<Rightarrow>
          (case writeTwoBytesRegister servoId (POSITION_CORRECTION R) (ucast positionOffset)
                  (asynchronous_default R) s1 of
             (False, s2) \<Rightarrow> (False, s2)
           | (True, s2) \<Rightarrow>
               (case writeRegister servoId (WRITE_LOCK R) 1 (asynchronous_default R) s2 of
                  (False, s3) \<Rightarrow> (False, s3)
                | (True, s3) \<Rightarrow> (True, s3))))"

definition getCurrentPosition :: "STSRegisters \<Rightarrow> byte \<Rightarrow> 'e driver \<Rightarrow> cint \<times> 'e driver" where
  "getCurrentPosition R servoId s =
     (case readTwoBytesRegister servoId (CURRENT_POSITION R) s of
        (pos, s') \<Rightarrow> (scast pos, s'))"

text \<open>
  The decoding of \<open>getCurrentSpeed\<close>: \<open>vel\<close> is promoted to \<open>int\<close> for \<open>&\<close> and for the
  unary minus, and the results are stored back into an \<open>int16_t\<close>.
\<close>

definition signedVel :: "int16_t \<Rightarrow> int16_t" where
  "signedVel vel =
     (let signedVel0 = (ucast ((scast vel :: cint) AND NOT 0x8000) :: int16_t)
      in if (scast vel :: cint) AND 0x8000 \<noteq> 0
         then ucast (- (scast signedVel0 :: cint))
         else signedVel0)"

definition getCurrentSpeed :: "STSRegisters \<Rightarrow> byte \<Rightarrow> 'e driver \<Rightarrow> cint \<times> 'e driver" where
  "getCurrentSpeed R servoId s =
     (case readTwoBytesRegister servoId (CURRENT_SPEED R) s of
        (vel, s') \<Rightarrow> (scast (signedVel vel), s'))"

definition getCurrentTemperature :: "STSRegisters \<Rightarrow> byte \<Rightarrow> 'e driver \<Rightarrow> cint \<times> 'e driver" where
  "getCurrentTemperature R servoId s =
     (case readTwoBytesRegister servoId (CURRENT_TEMPERATURE R) s of
        (t, s') \<Rightarrow> (scast t, s'))"

definition isMoving :: "STSRegisters \<Rightarrow> byte \<Rightarrow> 'e driver \<Rightarrow> bool \<times> 'e driver" where
  "isMoving R servoId s =
     (case readRegister servoId (MOVING_STATUS R) s of
        (result, s') \<Rightarrow> (result > 0, s'))"

text \<open>\<open>convertIntToBytes\<close>, which is also how \<open>setTargetPosition\<close> splits its arguments.\<close>

definition convertIntToBytes :: "cint \<Rightarrow> byte list" where
  "convertIntToBytes val =
     [ucast (val AND 0xFF), ucast (signed_drop_bit 8 val AND 0xFF)]"

definition setTargetPosition ::
  "STSRegisters \<Rightarrow> byte \<Rightarrow> cint \<Rightarrow> cint \<Rightarrow> bool \<Rightarrow> 'e driver \<Rightarrow> bool \<times> 'e driver" where
  "setTargetPosition R servoId position speed asynchronous s =
     (let params = [ucast (position AND 0xFF), ucast (signed_drop_bit 8 position AND 0xFF),
                    0, 0,
                    ucast (speed AND 0xFF), ucast (signed_drop_bit 8 speed AND 0xFF)]
      in writeRegisters servoId (TARGET_POSITION R) 6 params asynchronous s)"

text \<open>
  \<open>feetechVelocity\<close> of \<open>setTargetVelocity\<close>: \<open>abs(velocity)\<close> with bit 15 set for a
  negative velocity, as an \<open>unsigned int\<close>.
\<close>

definition feetechVelocity :: "cint \<Rightarrow> cint" where
  "feetechVelocity velocity =
     (let a = (if sint velocity < 0 then - velocity else velocity)
      in if sint velocity < 0 then a OR 0x8000 else a)"

definition setTargetVelocity ::
  "STSRegisters \<Rightarrow> byte \<Rightarrow> cint \<Rightarrow> bool \<Rightarrow> 'e driver \<Rightarrow> bool \<times> 'e driver" where
  "setTargetVelocity R servoId velocity asynchronous s =
     writeTwoBytesRegister servoId (RUNNING_SPEED R) (ucast (feetechVelocity velocity))
       asynchronous s"

definition setTargetAcceleration ::
  "STSRegisters \<Rightarrow> byte \<Rightarrow> byte \<Rightarrow> bool \<Rightarrow> 'e driver \<Rightarrow> bool \<times> 'e driver" where
  "setTargetAcceleration R servoId acceleration asynchronous s =
     writeRegister servoId (TARGET_ACCELERATION R) acceleration asynchronous s"

definition trigerAction :: "'e driver \<Rightarrow> bool \<times> 'e driver" where
  "trigerAction s =
     (case sendMessage 0xFE ACTION 0 [0] s of (send, s') \<Rightarrow> (send = 6, s'))"

section \<open>Broadcast synchronized write\<close>

definition sendAndUpdateChecksum :: "byte list \<Rightarrow> byte \<Rightarrow> 'e driver \<Rightarrow> byte \<times> 'e driver" where
  "sendAndUpdateChecksum convertedValue checksum s =
     (let s' = snd (port_write (take 2 convertedValue) s)
      in (checksum + of_nat (unat (convertedValue ! 0) + unat (convertedValue ! 1)), s'))"

function setTargetPositions_loop ::
  "nat \<Rightarrow> nat \<Rightarrow> byte list \<Rightarrow> cint list \<Rightarrow> cint list \<Rightarrow> byte \<Rightarrow> 'e driver \<Rightarrow> byte \<times> 'e driver"
  where
  "setTargetPositions_loop index numberOfServos servoIds positions speeds checksum s =
     (if index < numberOfServos
      then let checksum1 = checksum + servoIds ! index;
               s1 = port_write1 (servoIds ! index) s;
               (checksum2, s2) =
                  sendAndUpdateChecksum (convertIntToBytes (positions ! index)) checksum1 s1;
               s3 = port_write1 0 s2;
               s4 = port_write1 0 s3;
               (checksum3, s5) =
                  sendAndUpdateChecksum (convertIntToBytes (speeds ! index)) checksum2 s4
           in setTargetPositions_loop (index + 1) numberOfServos servoIds positions speeds
                checksum3 s5
      else (checksum, s))"
  by pat_completeness auto
termination
  by (relation "measure (\<lambda>(i, n, ids, ps, vs, c, s). n - i)") auto

definition setTargetPositions ::
  "STSRegisters \<Rightarrow> byte \<Rightarrow> byte list \<Rightarrow> cint list \<Rightarrow> cint list \<Rightarrow> 'e driver \<Rightarrow> 'e driver" where
  "setTargetPositions R numberOfServos servoIds positions speeds s =
     (let n = unat numberOfServos;
          s1 = port_write1 0xFF s;
          s2 = port_write1 0xFF s1;
          s3 = port_write1 0xFE s2;
          s4 = port_write1 (of_nat (n * 7 + 4)) s3;
          s5 = port_write1 SYNCWRITE s4;
          s6 = port_write1 (TARGET_POSITION R) s5;
          s7 = port_write1 6 s6;
          checksum0 = (of_nat (0xFE + n * 7 + 4 + unat SYNCWRITE
                               + unat (TARGET_POSITION R) + 6) :: byte);
          (checksum, s8) = setTargetPositions_loop 0 n servoIds positions speeds checksum0 s7
      in port_write1 (NOT checksum) s8)"

section \<open>Reference definitions and example buses\<close>

text \<open>
  The single-device frame in the words of the wire format:
  \<open>FF FF <id> <len> <cmd> <param>* <checksum>\<close> with \<open>len = paramCount + 2\<close> and
  \<open>checksum = ~((id + len + cmd + \<Sigma>param) & 0xFF)\<close>; all arithmetic is on bytes.
\<close>

definition spec_frame :: "byte \<Rightarrow> byte \<Rightarrow> byte list \<Rightarrow> byte list" where
  "spec_frame servoId cmd params =
     [0xFF, 0xFF, servoId, of_nat (length params + 2), cmd] @ params
     @ [NOT (servoId + of_nat (length params + 2) + cmd + sum_list params)]"

text \<open>
  The per-device block of the broadcast sync-write frame:
  \<open><id> <posLo> <posHi> 00 00 <spdLo> <spdHi>\<close>, low byte first.
\<close>

definition spec_block :: "byte \<times> cint \<times> cint \<Rightarrow> byte list" where
  "spec_block d =
     (case d of (servoId, position, speed) \<Rightarrow>
        [servoId, ucast position, ucast (drop_bit 8 position), 0, 0,
         ucast speed, ucast (drop_bit 8 speed)])"

text \<open>
  The driver after the candidate IDs \<open>0, \<dots>, k - 1\<close> have been pinged once each, in
  ascending order.
\<close>

definition after_pings :: "nat \<Rightarrow> 'e driver \<Rightarrow> 'e driver" where
  "after_pings k s = foldl (\<lambda>s' j. snd (ping (of_nat j) s')) s [0..<k]"

text \<open>
  A bus on which the port accepts every byte and nothing ever answers, and a bus with
  one servo that answers a Ping addressed to it with the status byte 0.
\<close>

definition quiet_line :: "unit \<Rightarrow> byte list \<Rightarrow> int \<times> byte list \<times> unit" where
  "quiet_line e bs = (int (length bs), [], e)"

definition servo_line :: "byte \<Rightarrow> unit \<Rightarrow> byte list \<Rightarrow> int \<times> byte list \<times> unit" where
  "servo_line servoId e bs =
     (int (length bs),
      if bs = [0xFF, 0xFF, servoId, 0x02, 0x01, NOT (servoId + 3)]
      then [0xFF, 0xFF, servoId, 0x02, 0x00, NOT (servoId + 2)] else [],
      e)"

text \<open>A bus that puts the same bytes into the receive buffer after every write.\<close>

definition reply_line :: "byte list \<Rightarrow> unit \<Rightarrow> byte list \<Rightarrow> int \<times> byte list \<times> unit" where
  "reply_line resp e bs = (int (length bs), resp, e)"

text \<open>A port that reports one byte fewer than it was given.\<close>

definition lossy_line :: "unit \<Rightarrow> byte list \<Rightarrow> int \<times> byte list \<times> unit" where
  "lossy_line e bs = (int (length bs) - 1, [], e)"

definition bus :: "(unit \<Rightarrow> byte list \<Rightarrow> int \<times> byte list \<times> unit) \<Rightarrow> byte list \<Rightarrow> unit driver" where
  "bus l rx = \<lparr>dirPin_high = False, written = [], rxbuf = rx, env = (), line = l\<rparr>"

definition example_registers :: STSRegisters where
  "example_registers =
     \<lparr>WRITE_LOCK = 0x37, ID = 0x05, POSITION_CORRECTION = 0x1F, CURRENT_POSITION = 0x38,
      CURRENT_SPEED = 0x3A, CURRENT_TEMPERATURE = 0x3F, MOVING_STATUS = 0x42,
      TARGET_POSITION = 0x2A, RUNNING_SPEED = 0x2E, TARGET_ACCELERATION = 0x29,
      asynchronous_default = False\<rparr>"

section \<open>Loops in closed form\<close>

declare sendMessage_loop.simps [simp del] receiveMessage_sum.simps [simp del]
  copy_loop.simps [simp del] writeRegisters_loop.simps [simp del]
  setTargetPositions_loop.simps [simp del] init_loop.simps [simp del] flush.simps [simp del]

lemma written_port_write: "written (snd (port_write bs s)) = written s @ bs"
  by (simp add: port_write_def split: prod.splits)

lemma sendMessage_loop_length:
  "length (fst (sendMessage_loop i n ps msg c)) = length msg"
  by (induction i n ps msg c rule: sendMessage_loop.induct)
     (subst sendMessage_loop.simps, simp)

lemma sendMessage_loop_nth:
  "j < length msg \<Longrightarrow>
   fst (sendMessage_loop i n ps msg c) ! j =
     (if 5 + i \<le> j \<and> j < 5 + n then ps ! (j - 5) else msg ! j)"
proof (induction i n ps msg c rule: sendMessage_loop.induct)
  case (1 i n ps msg c)
  show ?case
  proof (cases "i < n")
    case True
    show ?thesis
    proof (cases "j = 5 + i")
      case True
      with \<open>i < n\<close> 1 show ?thesis
        by (subst sendMessage_loop.simps) simp
    next
      case False
      with \<open>i < n\<close> 1 show ?thesis
        by (subst sendMessage_loop.simps) (auto simp: nth_list_update)
    qed
  next
    case False
    then have "(if 5 + i \<le> j \<and> j < 5 + n then ps ! (j - 5) else msg ! j) = msg ! j"
      by auto
    with False show ?thesis
      by (subst sendMessage_loop.simps) (simp only: if_False fst_conv)
  qed
qed

lemma sendMessage_loop_checksum:
  "i \<le> n \<Longrightarrow> n \<le> length ps \<Longrightarrow>
   snd (sendMessage_loop i n ps msg c) = c + sum_list (drop i (take n ps))"
proof (induction i n ps msg c rule: sendMessage_loop.induct)
  case (1 i n ps msg c)
  show ?case
  proof (cases "i < n")
    case True
    then have "drop i (take n ps) = ps ! i # drop (i + 1) (take n ps)"
      using 1(3) Cons_nth_drop_Suc [of i "take n ps"] by simp
    with True 1 show ?thesis
      by (subst sendMessage_loop.simps) (simp add: add.assoc)
  next
    case False
    with 1 show ?thesis
      by (subst sendMessage_loop.simps) simp
  qed
qed

lemma sendMessage_message:
  assumes "k \<le> length ps"
  shows "(fst (sendMessage_loop 0 k ps
            ((replicate (6 + k) 0)[0 := 0xFF, 1 := 0xFF, 2 := sid, 3 := ln, 4 := cmd]) c))
           [5 + k := x]
         = [0xFF, 0xFF, sid, ln, cmd] @ take k ps @ [x]" (is "?l = ?r")
proof (rule nth_equalityI)
  show len: "length ?l = length ?r"
    using assms by (simp add: sendMessage_loop_length)
  fix j assume "j < length ?l"
  then have j: "j < 6 + k" by (simp add: sendMessage_loop_length)
  consider "j < 5" | "5 \<le> j" "j < 5 + k" | "j = 5 + k" using j by linarith
  then show "?l ! j = ?r ! j"
  proof cases
    case 1
    then have "j = 0 \<or> j = 1 \<or> j = 2 \<or> j = 3 \<or> j = 4" by linarith
    then show ?thesis
      by (auto simp: sendMessage_loop_length sendMessage_loop_nth nth_list_update)
  next
    case 2
    then obtain i where i: "j = 5 + i" "i < k"
      by (metis add_diff_inverse_nat less_diff_conv2 not_less add.commute)
    have "?r ! (5 + i) = (take k ps @ [x]) ! i"
      using nth_append_length_plus [of "[0xFF, 0xFF, sid, ln, cmd]" "take k ps @ [x]" i]
      by simp
    then have "?r ! j = ps ! i"
      using i assms by (simp add: nth_append)
    with 2 i show ?thesis
      by (simp add: sendMessage_loop_length sendMessage_loop_nth nth_list_update)
  next
    case 3
    have "?r ! (5 + k) = (take k ps @ [x]) ! k"
      using nth_append_length_plus [of "[0xFF, 0xFF, sid, ln, cmd]" "take k ps @ [x]" k]
      by simp
    then have "?r ! j = x"
      using 3 assms by (simp add: nth_append)
    with 3 show ?thesis
      by (simp add: sendMessage_loop_length)
  qed
qed

lemma sendMessage_eq:
  assumes "unat n \<le> length ps"
  shows "sendMessage sid cmd n ps s =
    (let frame = [0xFF, 0xFF, sid, n + 2, cmd] @ take (unat n) ps
                 @ [NOT (sid + (n + 2) + cmd + sum_list (take (unat n) ps))]
     in (fst (line s (env s) frame),
         s\<lparr>dirPin_high := False, written := written s @ frame,
           rxbuf := rxbuf s @ fst (snd (line s (env s) frame)),
           env := snd (snd (line s (env s) frame))\<rparr>))"
proof -
  define m0 where "m0 = (replicate (6 + unat n) (0::byte))
      [0 := 0xFF, 1 := 0xFF, 2 := sid, 3 := of_nat (unat n + 2), 4 := cmd]"
  define c0 :: byte where "c0 = of_nat (unat sid + unat n + 2 + unat cmd)"
  obtain m c where lp: "sendMessage_loop 0 (unat n) ps m0 c0 = (m, c)"
    by fastforce
  have m: "m = fst (sendMessage_loop 0 (unat n) ps m0 c0)"
    and c: "c = snd (sendMessage_loop 0 (unat n) ps m0 c0)"
    by (simp_all only: lp fst_conv snd_conv)
  have ln: "(of_nat (unat n + 2) :: byte) = n + 2"
    by simp
  have "c = c0 + sum_list (take (unat n) ps)"
    unfolding c by (simp only: sendMessage_loop_checksum [OF le0 assms] drop_0)
  then have c': "c = sid + (n + 2) + cmd + sum_list (take (unat n) ps)"
    by (simp add: c0_def ac_simps)
  have "m[5 + unat n := x]
      = [0xFF, 0xFF, sid, of_nat (unat n + 2), cmd] @ take (unat n) ps @ [x]" for x
    unfolding m m0_def by (rule sendMessage_message [OF assms])
  then have m': "m[5 + unat n := x] = [0xFF, 0xFF, sid, n + 2, cmd] @ take (unat n) ps @ [x]" for x
    by (simp only: ln)
  have "sendMessage sid cmd n ps s =
      (case port_write (m[5 + unat n := NOT c]) (digitalWrite True s) of
         (ret, s2) \<Rightarrow> (ret, digitalWrite False s2))"
    unfolding sendMessage_def Let_def m0_def [symmetric] c0_def [symmetric] lp by simp
  then show ?thesis
    unfolding m' c' by (simp add: port_write_def digitalWrite_def Let_def split: prod.splits)
qed



lemma receiveMessage_sum_eq:
  "i \<le> b \<Longrightarrow> b \<le> length r \<Longrightarrow>
   receiveMessage_sum i b r c = c + sum_list (drop i (take b r))"
proof (induction i b r c rule: receiveMessage_sum.induct)
  case (1 i b r c)
  show ?case
  proof (cases "i < b")
    case True
    then have "drop i (take b r) = r ! i # drop (i + 1) (take b r)"
      using 1(3) Cons_nth_drop_Suc [of i "take b r"] by simp
    with True 1 show ?thesis
      by (subst receiveMessage_sum.simps) (simp add: add.assoc)
  next
    case False
    with 1 show ?thesis
      by (subst receiveMessage_sum.simps) simp
  qed
qed

lemma copy_loop_length: "length (copy_loop i n off r out) = length out"
  by (induction i n off r out rule: copy_loop.induct)
     (subst copy_loop.simps, simp)

lemma copy_loop_nth:
  "j < length out \<Longrightarrow>
   copy_loop i n off r out ! j = (if i \<le> j \<and> j < n then r ! (j + off) else out ! j)"
proof (induction i n off r out rule: copy_loop.induct)
  case (1 i n off r out)
  show ?case
  proof (cases "i < n")
    case True
    show ?thesis
    proof (cases "j = i")
      case True
      with \<open>i < n\<close> 1 show ?thesis
        by (subst copy_loop.simps) simp
    next
      case False
      with \<open>i < n\<close> 1 show ?thesis
        by (subst copy_loop.simps) (auto simp: nth_list_update)
    qed
  next
    case False
    then have "(if i \<le> j \<and> j < n then r ! (j + off) else out ! j) = out ! j"
      by auto
    with False show ?thesis
      by (subst copy_loop.simps) (simp only: if_False)
  qed
qed

lemma copy_loop_eq:
  assumes "length out = n" "n + off \<le> length r"
  shows "copy_loop 0 n off r out = take n (drop off r)"
proof (rule nth_equalityI)
  show "length (copy_loop 0 n off r out) = length (take n (drop off r))"
    using assms by (simp add: copy_loop_length)
  fix j assume "j < length (copy_loop 0 n off r out)"
  then have "j < n" using assms by (simp add: copy_loop_length)
  then show "copy_loop 0 n off r out ! j = take n (drop off r) ! j"
    using assms by (simp add: copy_loop_nth add.commute)
qed

lemma writeRegisters_loop_length: "length (writeRegisters_loop i n ps param) = length param"
  by (induction i n ps param rule: writeRegisters_loop.induct)
     (subst writeRegisters_loop.simps, simp)

lemma writeRegisters_loop_nth:
  "j < length param \<Longrightarrow>
   writeRegisters_loop i n ps param ! j
     = (if i + 1 \<le> j \<and> j < n + 1 then ps ! (j - 1) else param ! j)"
proof (induction i n ps param rule: writeRegisters_loop.induct)
  case (1 i n ps param)
  show ?case
  proof (cases "i < n")
    case True
    show ?thesis
    proof (cases "j = i + 1")
      case True
      with \<open>i < n\<close> 1 show ?thesis
        by (subst writeRegisters_loop.simps) simp
    next
      case False
      with \<open>i < n\<close> 1 show ?thesis
        by (subst writeRegisters_loop.simps) (auto simp: nth_list_update)
    qed
  next
    case False
    then have "(if i + 1 \<le> j \<and> j < n + 1 then ps ! (j - 1) else param ! j) = param ! j"
      by auto
    with False show ?thesis
      by (subst writeRegisters_loop.simps) (simp only: if_False)
  qed
qed

lemma writeRegisters_param:
  assumes "n \<le> length ps"
  shows "writeRegisters_loop 0 n ps ((replicate (n + 1) 0)[0 := reg]) = reg # take n ps"
    (is "?l = ?r")
proof (rule nth_equalityI)
  show "length ?l = length ?r"
    using assms by (simp add: writeRegisters_loop_length)
  fix j assume "j < length ?l"
  then have j: "j < n + 1" by (simp add: writeRegisters_loop_length)
  show "?l ! j = ?r ! j"
  proof (cases j)
    case 0
    then show ?thesis by (simp add: writeRegisters_loop_nth)
  next
    case (Suc k)
    with j assms show ?thesis by (simp add: writeRegisters_loop_nth)
  qed
qed

lemma receiveMessage_ok:
  assumes rx: "rxbuf s = [0xFF, 0xFF, sid, of_nat (n + 1)] @ body
                 @ [NOT (sid + of_nat (n + 1) + sum_list body)] @ rest"
    and len: "length body = n" "n \<le> 254" "length out = n"
  shows "receiveMessage sid (of_nat n) out s
         = (Inr body, s\<lparr>dirPin_high := False, rxbuf := rest\<rparr>)"
proof -
  have un: "unat (of_nat n :: byte) = n" and un1: "unat (of_nat (n + 1) :: byte) = n + 1"
    using len(2) by (simp_all add: unat_of_nat del: of_nat_Suc of_nat_add)
  define r where "r = [0xFF, 0xFF, sid, of_nat (n + 1)] @ body
                 @ [NOT (sid + of_nat (n + 1) + sum_list body)]"
  have rlen: "length r = n + 5" by (simp add: r_def len)
  have rx': "rxbuf s = r @ rest"
    by (simp add: rx r_def)
  have tk: "take (n + 5) (rxbuf s) = r" and dr: "drop (n + 5) (rxbuf s) = rest"
    unfolding rx' rlen [symmetric] by simp_all
  have hd: "r ! 0 = 0xFF" "r ! 1 = 0xFF" "r ! 2 = sid" "r ! 3 = of_nat (n + 1)"
    by (simp_all add: r_def del: of_nat_Suc of_nat_add)
  define h where "h = [0xFF, 0xFF, sid, of_nat (n + 1) :: byte]"
  define x where "x = NOT (sid + of_nat (n + 1) + sum_list body)"
  have r: "r = (h @ body) @ [x]"
    by (simp add: r_def h_def x_def)
  have hb: "length (h @ body) = n + 4" and h4: "length h = 4"
    by (simp_all add: h_def len)
  have last: "r ! (n + 4) = x"
    unfolding r hb [symmetric] by (rule nth_append_length)
  have "take (n + 4) r = h @ body"
    unfolding r hb [symmetric] by simp
  then have "drop 2 (take (n + 4) r) = [sid, of_nat (n + 1)] @ body"
    by (simp add: h_def del: of_nat_Suc of_nat_add)
  then have sum: "NOT (receiveMessage_sum 2 (n + 4) r 0) = x"
    using rlen by (simp add: receiveMessage_sum_eq x_def add.assoc del: of_nat_Suc of_nat_add)
  have "drop 4 r = body @ [x]"
    unfolding r h4 [symmetric] by simp
  then have bd: "take n (drop 4 r) = body"
    by (simp add: len)
  have cp: "copy_loop 0 n 4 r out = body"
    using copy_loop_eq [of out n 4 r] len rlen bd by simp
  have hd1: "r ! Suc 0 = 0xFF"
    by (simp add: r_def)
  have un1': "unat (of_nat (Suc n) :: byte) = Suc n"
    using un1 by (simp del: of_nat_Suc of_nat_add)
  show ?thesis
    unfolding receiveMessage_def Let_def port_readBytes_def digitalWrite_def un
    by (simp add: tk dr rlen hd hd1 un1 un1' last sum cp del: of_nat_Suc of_nat_add)
qed


lemma receiveMessage_state:
  "snd (receiveMessage sid rl out s)
   = s\<lparr>dirPin_high := False, rxbuf := drop (unat rl + 5) (rxbuf s)\<rparr>"
  by (simp add: receiveMessage_def Let_def port_readBytes_def digitalWrite_def)

lemma sendMessage_written:
  "unat n \<le> length ps \<Longrightarrow>
   written (snd (sendMessage sid cmd n ps s))
   = written s @ [0xFF, 0xFF, sid, n + 2, cmd] @ take (unat n) ps
       @ [NOT (sid + (n + 2) + cmd + sum_list (take (unat n) ps))]"
  by (simp add: sendMessage_eq Let_def)

lemma unat_of_nat_byte: "n \<le> 255 \<Longrightarrow> unat (of_nat n :: byte) = n"
  by (simp add: unat_of_nat)

lemma sendMessage_spec_frame:
  assumes "length ps \<le> 255"
  shows "written (snd (sendMessage sid cmd (of_nat (length ps)) ps s))
         = written s @ spec_frame sid cmd ps"
  using assms sendMessage_written [of "of_nat (length ps)" ps sid cmd s]
  by (simp add: unat_of_nat_byte spec_frame_def)

lemma ping_snd:
  "snd (ping sid s) =
     (if fst (sendMessage sid PING 0 [0xFF] s) \<noteq> 6 then snd (sendMessage sid PING 0 [0xFF] s)
      else snd (receiveMessage sid 1 [0xFF] (snd (sendMessage sid PING 0 [0xFF] s))))"
  by (auto simp: ping_def Let_def split: prod.splits sum.splits)

lemma ping_written:
  "written (snd (ping sid s)) = written s @ [0xFF, 0xFF, sid, 0x02, 0x01, NOT (sid + 3)]"
  by (simp add: ping_snd PING_def sendMessage_eq receiveMessage_state Let_def add.commute)



section \<open>Properties of the driver\<close>

subsection \<open>The frame written by sendMessage\<close>



subsection \<open>Decoding with receiveMessage\<close>

lemma receiveMessage_fst:
  "fst (receiveMessage sid rl out s) =
     (let n = unat rl; r = take (n + 5) (rxbuf s) in
      if length r \<noteq> n + 5 then Inl (- 1)
      else if r ! 0 \<noteq> 0xFF \<or> r ! 1 \<noteq> 0xFF \<or> r ! 2 \<noteq> sid \<or> unat (r ! 3) \<noteq> n + 1
           then Inl (- 2)
      else if r ! (n + 4) \<noteq> NOT (receiveMessage_sum 2 (n + 4) r 0) then Inl (- 3)
      else Inr (copy_loop 0 n 4 r out))"
  by (simp add: receiveMessage_def Let_def port_readBytes_def digitalWrite_def)

lemma receive_param_count_rejected:
  assumes "length params \<le> 253"
    and "rxbuf s = spec_frame sid cmd params @ rest"
  shows "fst (receiveMessage sid (of_nat (length params)) out s) = Inl (- 2)"
proof -
  let ?n = "length params"
  let ?h = "[0xFF, 0xFF, sid, of_nat (?n + 2) :: byte]"
  let ?t = "cmd # params @ [NOT (sid + of_nat (?n + 2) + cmd + sum_list params)]"
  have un: "unat (of_nat ?n :: byte) = ?n"
    using assms(1) by (simp add: unat_of_nat_byte)
  have rx: "rxbuf s = ?h @ (?t @ rest)"
    by (simp add: assms(2) spec_frame_def)
  have "length (?h @ take (?n + 1) (?t @ rest)) = ?n + 5"
    by simp
  moreover have "take (?n + 5) (rxbuf s) = ?h @ take (?n + 1) (?t @ rest)"
    unfolding rx using take_append [of "?n + 5" ?h "?t @ rest"] by simp
  moreover have "(?h @ take (?n + 1) (?t @ rest)) ! 3 = of_nat (?n + 2)"
    using nth_append [of ?h "take (?n + 1) (?t @ rest)" 3] by simp
  moreover have "unat (of_nat (?n + 2) :: byte) = ?n + 2"
    using assms(1) unat_of_nat_byte [of "?n + 2"] by simp
  ultimately show ?thesis
    unfolding receiveMessage_fst Let_def un by (simp del: of_nat_add of_nat_Suc)
qed

text \<open>
  C2, as amended. The frame that \<open>sendMessage\<close> writes for \<open>(id, cmd, params)\<close>, with up to
  253 parameters (so for every id in \<open>[0x00, 0xFD]\<close> and every length from 0 to 250), fed to
  \<open>receiveMessage\<close> for the same id with the read length \<open>length params + 1\<close>, passes the
  sync-byte, ID, length-field and checksum checks, and the output buffer receives the
  command byte followed by the parameter bytes, unchanged and in order. The bytes after the
  frame stay in the receive buffer. With the parameter count itself as read length the
  frame is rejected with the code -2.
\<close>

theorem receive_sent_frame:
  assumes "length params \<le> 253"
    and "length outputBuffer = length params + 1"
    and "written (snd (sendMessage servoId cmd (of_nat (length params)) params s0))
         = written s0 @ frame"
    and "rxbuf s = frame @ rest"
  shows "receiveMessage servoId (of_nat (length params + 1)) outputBuffer s
         = (Inr (cmd # params), s\<lparr>dirPin_high := False, rxbuf := rest\<rparr>)
       \<and> fst (receiveMessage servoId (of_nat (length params)) outputBuffer s) = Inl (- 2)"
proof
  have frame: "frame = spec_frame servoId cmd params"
    using assms(1,3) sendMessage_spec_frame [of params servoId cmd s0] by simp
  then have "rxbuf s = [0xFF, 0xFF, servoId, of_nat ((length params + 1) + 1)] @ (cmd # params)
      @ [NOT (servoId + of_nat ((length params + 1) + 1) + sum_list (cmd # params))] @ rest"
    using assms(4) by (simp add: spec_frame_def ac_simps)
  then show "receiveMessage servoId (of_nat (length params + 1)) outputBuffer s
         = (Inr (cmd # params), s\<lparr>dirPin_high := False, rxbuf := rest\<rparr>)"
    using assms(1,2) by (intro receiveMessage_ok) simp_all
  show "fst (receiveMessage servoId (of_nat (length params)) outputBuffer s) = Inl (- 2)"
    using assms(1) assms(4) [unfolded frame] by (rule receive_param_count_rejected)
qed

theorem receive_sent_frame_witness:
  "length [0x2A, 0x10 :: byte] \<le> 253
   \<and> written (snd (sendMessage 1 WRITE 2 [0x2A, 0x10] (bus quiet_line [])))
       = [0xFF, 0xFF, 0x01, 0x04, 0x03, 0x2A, 0x10, 0xBD]
   \<and> receiveMessage 1 3 [0, 0, 0]
        (bus quiet_line ([0xFF, 0xFF, 0x01, 0x04, 0x03, 0x2A, 0x10, 0xBD] @ [0x55]))
      = (Inr [0x03, 0x2A, 0x10], bus quiet_line [0x55])
   \<and> fst (receiveMessage 1 2 [0, 0, 0]
        (bus quiet_line ([0xFF, 0xFF, 0x01, 0x04, 0x03, 0x2A, 0x10, 0xBD] @ [0x55])))
      = Inl (- 2)"
  using receive_sent_frame [of "[0x2A, 0x10]" "[0, 0, 0]" 1 WRITE "bus quiet_line []"
      "[0xFF, 0xFF, 0x01, 0x04, 0x03, 0x2A, 0x10, 0xBD]"
      "bus quiet_line ([0xFF, 0xFF, 0x01, 0x04, 0x03, 0x2A, 0x10, 0xBD] @ [0x55])" "[0x55]"]
    sendMessage_written [of 2 "[0x2A, 0x10]" 1 WRITE "bus quiet_line []"]
  by (simp add: bus_def WRITE_def)

text \<open>
  C2 as stated fails: with the parameter count as read length the length field is
  rejected, and with the one read length that passes, the output is not the parameter
  list but the command byte followed by it.
\<close>

theorem receive_sent_frame_counterexample:
  "fst (receiveMessage 1 2 [0, 0]
          (bus quiet_line (written (snd (sendMessage 1 WRITE 2 [0x2A, 0x10] (bus quiet_line []))))))
     = Inl (- 2)
   \<and> fst (receiveMessage 1 3 [0, 0, 0]
          (bus quiet_line (written (snd (sendMessage 1 WRITE 2 [0x2A, 0x10] (bus quiet_line []))))))
     = Inr [0x03, 0x2A, 0x10]"
  by (simp add: sendMessage_written receiveMessage_fst bus_def WRITE_def Let_def
      receiveMessage_sum.simps copy_loop.simps)

text \<open>
  C3, as amended. \<open>receiveMessage\<close> does not tell the three header causes apart: on a
  response of full length, a bad sync byte, a device ID other than the requested one and
  a wrong length field all fail with the same return code -2, whatever the other bytes
  (a valid checksum and valid sync bytes included). That code differs only from the one of
  a short read, -1, and from the one of a checksum mismatch, -3.
\<close>

theorem receiveMessage_codes:
  "(length (rxbuf s) < unat readLength + 5 \<longrightarrow>
      fst (receiveMessage servoId readLength outputBuffer s) = Inl (- 1))
   \<and> (unat readLength + 5 \<le> length (rxbuf s)
        \<and> (rxbuf s ! 0 \<noteq> 0xFF \<or> rxbuf s ! 1 \<noteq> 0xFF) \<longrightarrow>
      fst (receiveMessage servoId readLength outputBuffer s) = Inl (- 2))
   \<and> (unat readLength + 5 \<le> length (rxbuf s) \<and> rxbuf s ! 2 \<noteq> servoId \<longrightarrow>
      fst (receiveMessage servoId readLength outputBuffer s) = Inl (- 2))
   \<and> (unat readLength + 5 \<le> length (rxbuf s)
        \<and> unat (rxbuf s ! 3) \<noteq> unat readLength + 1 \<longrightarrow>
      fst (receiveMessage servoId readLength outputBuffer s) = Inl (- 2))
   \<and> (unat readLength + 5 \<le> length (rxbuf s)
        \<and> rxbuf s ! 0 = 0xFF \<and> rxbuf s ! 1 = 0xFF \<and> rxbuf s ! 2 = servoId
        \<and> unat (rxbuf s ! 3) = unat readLength + 1
        \<and> rxbuf s ! (unat readLength + 4)
            \<noteq> NOT (sum_list (take (unat readLength + 2) (drop 2 (rxbuf s)))) \<longrightarrow>
      fst (receiveMessage servoId readLength outputBuffer s) = Inl (- 3))"
proof -
  let ?n = "unat readLength"
  let ?r = "take (?n + 5) (rxbuf s)"
  have nth: "?r ! i = rxbuf s ! i" if "i < ?n + 5" for i
    using that by simp
  have sum: "receiveMessage_sum 2 (?n + 4) ?r 0
             = sum_list (take (?n + 2) (drop 2 (rxbuf s)))"
    if "?n + 5 \<le> length (rxbuf s)"
  proof -
    have "drop 2 (take (?n + 4) ?r) = take (?n + 2) (drop 2 (rxbuf s))"
      by (simp add: drop_take min_def)
    then show ?thesis
      using that by (simp add: receiveMessage_sum_eq)
  qed
  show ?thesis
    by (auto simp add: receiveMessage_fst Let_def nth sum)
qed

text \<open>
  C3 as stated fails: a response with a bad sync byte, one with a foreign device ID (and a
  valid checksum) and one with a wrong length field are answered by the same code.
\<close>

theorem receiveMessage_codes_counterexample:
  "fst (receiveMessage 1 1 [0xFF] (bus quiet_line [0x00, 0xFF, 0x01, 0x02, 0x00, 0xFC])) = Inl (- 2)
   \<and> fst (receiveMessage 1 1 [0xFF] (bus quiet_line [0xFF, 0xFF, 0x02, 0x02, 0x00, 0xFB])) = Inl (- 2)
   \<and> fst (receiveMessage 1 1 [0xFF] (bus quiet_line [0xFF, 0xFF, 0x01, 0x03, 0x00, 0xFB])) = Inl (- 2)"
  by (simp add: receiveMessage_fst bus_def Let_def)


theorem receiveMessage_codes_witness:
  "fst (receiveMessage 1 1 [0xFF] (bus quiet_line [0xFF, 0xFF, 0x01])) = Inl (- 1)
   \<and> fst (receiveMessage 1 1 [0xFF] (bus quiet_line [0x00, 0xFF, 0x01, 0x02, 0x00, 0xFC]))
       = Inl (- 2)
   \<and> fst (receiveMessage 1 1 [0xFF] (bus quiet_line [0xFF, 0xFF, 0x02, 0x02, 0x00, 0xFB]))
       = Inl (- 2)
   \<and> fst (receiveMessage 1 1 [0xFF] (bus quiet_line [0xFF, 0xFF, 0x01, 0x03, 0x00, 0xFB]))
       = Inl (- 2)
   \<and> fst (receiveMessage 1 1 [0xFF] (bus quiet_line [0xFF, 0xFF, 0x01, 0x02, 0x00, 0x00]))
       = Inl (- 3)"
  using receiveMessage_codes [of "bus quiet_line [0xFF, 0xFF, 0x01]" 1 1 "[0xFF]"]
    receiveMessage_codes [of "bus quiet_line [0x00, 0xFF, 0x01, 0x02, 0x00, 0xFC]" 1 1 "[0xFF]"]
    receiveMessage_codes [of "bus quiet_line [0xFF, 0xFF, 0x02, 0x02, 0x00, 0xFB]" 1 1 "[0xFF]"]
    receiveMessage_codes [of "bus quiet_line [0xFF, 0xFF, 0x01, 0x03, 0x00, 0xFB]" 1 1 "[0xFF]"]
    receiveMessage_codes [of "bus quiet_line [0xFF, 0xFF, 0x01, 0x02, 0x00, 0x00]" 1 1 "[0xFF]"]
  by (simp add: bus_def)

subsection \<open>writeRegisters\<close>

lemma writeRegisters_eq:
  assumes "unat wl \<le> length ps"
  shows "writeRegisters sid reg wl ps async s =
     (case sendMessage sid (if async then REGWRITE else WRITE) (wl + 1)
             (reg # take (unat wl) ps) s of
        (rc, s') \<Rightarrow> (rc = int (unat wl) + 7, s'))"
proof -
  have "(of_nat (unat wl + 1) :: byte) = wl + 1"
    by simp
  then show ?thesis
    unfolding writeRegisters_def Let_def writeRegisters_param [OF assms] by (simp only:)
qed

lemma writeRegisters_frame:
  assumes "length bytes \<le> 254"
  shows "writeRegisters sid reg (of_nat (length bytes)) bytes async s =
     (fst (line s (env s) (spec_frame sid (if async then REGWRITE else WRITE) (reg # bytes)))
        = int (length bytes) + 7,
      s\<lparr>dirPin_high := False,
        written := written s @ spec_frame sid (if async then REGWRITE else WRITE) (reg # bytes),
        rxbuf := rxbuf s
          @ fst (snd (line s (env s)
                (spec_frame sid (if async then REGWRITE else WRITE) (reg # bytes)))),
        env := snd (snd (line s (env s)
                (spec_frame sid (if async then REGWRITE else WRITE) (reg # bytes))))\<rparr>)"
proof -
  have un: "unat (of_nat (length bytes) :: byte) = length bytes"
    using assms by (simp add: unat_of_nat_byte)
  have un1: "unat (of_nat (length bytes) + 1 :: byte) = length bytes + 1"
    using assms unat_of_nat_byte [of "length bytes + 1"] by (simp add: add.commute)
  have ln: "(of_nat (length bytes) + 1 + 2 :: byte) = of_nat (length (reg # bytes) + 2)"
    by simp
  show ?thesis
    unfolding writeRegisters_eq [of "of_nat (length bytes)" bytes, unfolded un, OF order_refl]
    by (simp add: sendMessage_eq un1 Let_def spec_frame_def ln del: of_nat_add of_nat_Suc)
qed

text \<open>
  C4, as amended. For up to 254 bytes, \<open>writeRegisters\<close> hands the port exactly one
  frame, whose parameters are the start register followed by the given bytes and whose
  command code is WRITE (0x03) for an immediate and REGWRITE (0x04) for a deferred write;
  it takes nothing out of the receive buffer (whatever arrives after the write stays
  there), and it returns success exactly when the port reports \<open>length bytes + 7\<close> bytes for
  that frame.
\<close>

theorem writeRegisters_sends_one_frame:
  "length bytes \<le> 254 \<Longrightarrow>
   written (snd (writeRegisters servoId startRegister (of_nat (length bytes)) bytes asynchronous s))
     = written s
       @ [0xFF, 0xFF, servoId, of_nat (length bytes + 3), if asynchronous then 0x04 else 0x03,
          startRegister] @ bytes
       @ [NOT (servoId + of_nat (length bytes + 3) + (if asynchronous then 0x04 else 0x03)
               + (startRegister + sum_list bytes))]
   \<and> rxbuf (snd (writeRegisters servoId startRegister (of_nat (length bytes)) bytes asynchronous s))
     = rxbuf s @ fst (snd (line s (env s)
         (spec_frame servoId (if asynchronous then REGWRITE else WRITE) (startRegister # bytes))))
   \<and> fst (writeRegisters servoId startRegister (of_nat (length bytes)) bytes asynchronous s)
     = (fst (line s (env s)
         (spec_frame servoId (if asynchronous then REGWRITE else WRITE) (startRegister # bytes)))
        = int (length bytes) + 7)"
proof -
  assume len: "length bytes \<le> 254"
  let ?cmd = "if asynchronous then REGWRITE else WRITE"
  let ?frame = "spec_frame servoId ?cmd (startRegister # bytes)"
  let ?w = "writeRegisters servoId startRegister (of_nat (length bytes)) bytes asynchronous s"
  have frame: "?frame
      = [0xFF, 0xFF, servoId, of_nat (length bytes + 3), if asynchronous then 0x04 else 0x03,
         startRegister] @ bytes
        @ [NOT (servoId + of_nat (length bytes + 3) + (if asynchronous then 0x04 else 0x03)
                + (startRegister + sum_list bytes))]"
    by (simp add: spec_frame_def REGWRITE_def WRITE_def)
  have "written (snd ?w) = written s @ ?frame"
    and rx: "rxbuf (snd ?w) = rxbuf s @ fst (snd (line s (env s) ?frame))"
    and rc: "fst ?w = (fst (line s (env s) ?frame) = int (length bytes) + 7)"
    by (simp_all add: writeRegisters_frame [OF len])
  then show ?thesis
    by (simp only: frame)
qed

theorem writeRegisters_sends_one_frame_witness:
  "length [0x05, 0x06 :: byte] \<le> 254
   \<and> fst (writeRegisters 1 0x2A 2 [0x05, 0x06] True (bus quiet_line [])) = True
   \<and> written (snd (writeRegisters 1 0x2A 2 [0x05, 0x06] True (bus quiet_line [])))
     = [0xFF, 0xFF, 0x01, 0x05, 0x04, 0x2A, 0x05, 0x06, 0xC0]
   \<and> fst (writeRegisters 1 0x2A 2 [0x05, 0x06] False (bus lossy_line [])) = False
   \<and> written (snd (writeRegisters 1 0x2A 2 [0x05, 0x06] False (bus lossy_line [])))
     = [0xFF, 0xFF, 0x01, 0x05, 0x03, 0x2A, 0x05, 0x06, 0xC1]"
  using writeRegisters_sends_one_frame [of "[0x05, 0x06]" 1 "0x2A" True "bus quiet_line []"]
    writeRegisters_sends_one_frame [of "[0x05, 0x06]" 1 "0x2A" False "bus lossy_line []"]
  by (simp add: bus_def quiet_line_def lossy_line_def spec_frame_def)

text \<open>
  C4 as stated fails for 255 bytes, the largest \<open>writeLength\<close>: \<open>writeLength + 1\<close> is
  truncated to the \<open>byte\<close> 0 on its way into \<open>sendMessage\<close>, and the frame sent carries no
  parameter at all, neither the start register nor the bytes.
\<close>

theorem writeRegisters_sends_one_frame_counterexample:
  "writeRegisters 1 0x2A 255 (replicate 255 0x11) False (bus quiet_line [])
   = (False, (bus quiet_line [])\<lparr>written := [0xFF, 0xFF, 0x01, 0x02, 0x03, 0xF9]\<rparr>)"
  by (simp add: writeRegisters_eq sendMessage_eq bus_def quiet_line_def WRITE_def Let_def)

subsection \<open>The broadcast frame of setTargetPositions\<close>

lemma mask8: "(0xFF :: cint) = mask 8"
  by (simp add: mask_eq_exp_minus_1)

lemma low_byte: "(ucast ((v :: cint) AND 0xFF) :: byte) = ucast v"
  unfolding mask8 by (rule bit_word_eqI) (simp add: bit_simps)

lemma high_byte: "(ucast (signed_drop_bit 8 (v :: cint)) :: byte) = ucast (drop_bit 8 v)"
  by (rule bit_word_eqI) (auto simp add: bit_simps)

lemma convertIntToBytes_eq: "convertIntToBytes v = [ucast v, ucast (drop_bit 8 v)]"
  by (simp add: convertIntToBytes_def low_byte high_byte)

lemma port_write1_written: "written (port_write1 b s) = written s @ [b]"
  by (simp add: port_write1_def written_port_write)

lemma sendAndUpdateChecksum_eq:
  "fst (sendAndUpdateChecksum [a, b] c s) = c + a + b"
  "written (snd (sendAndUpdateChecksum [a, b] c s)) = written s @ [a, b]"
  by (simp_all add: sendAndUpdateChecksum_def Let_def written_port_write)


lemma setTargetPositions_loop_eq:
  assumes "n \<le> length ids" "n \<le> length ps" "n \<le> length vs"
  shows "i \<le> n \<Longrightarrow>
       fst (setTargetPositions_loop i n ids ps vs c s)
           = c + sum_list (concat (map spec_block (drop i (take n (zip ids (zip ps vs))))))
       \<and> written (snd (setTargetPositions_loop i n ids ps vs c s))
           = written s @ concat (map spec_block (drop i (take n (zip ids (zip ps vs)))))"
proof (induction "n - i" arbitrary: i c s)
  case 0
  then have "i = n" by simp
  then show ?case
    by (subst (1 2) setTargetPositions_loop.simps) simp
next
  case (Suc k)
  then have True: "i < n" by simp
  let ?z = "take n (zip ids (zip ps vs))"
  have len: "i < length ?z"
    using True assms by simp
  have nth: "?z ! i = (ids ! i, ps ! i, vs ! i)"
    using True assms by simp
  have dr: "drop i ?z = (ids ! i, ps ! i, vs ! i) # drop (i + 1) ?z"
    using Cons_nth_drop_Suc [OF len] nth by simp
  define c3 where "c3 = c + ids ! i + ucast (ps ! i) + ucast (drop_bit 8 (ps ! i))
      + ucast (vs ! i) + ucast (drop_bit 8 (vs ! i))"
  define s5 where "s5 = snd (sendAndUpdateChecksum (convertIntToBytes (vs ! i))
      (c + ids ! i + ucast (ps ! i) + ucast (drop_bit 8 (ps ! i)))
      (port_write1 0 (port_write1 0 (snd (sendAndUpdateChecksum (convertIntToBytes (ps ! i))
         (c + ids ! i) (port_write1 (ids ! i) s))))))"
  have step: "setTargetPositions_loop i n ids ps vs c s
      = setTargetPositions_loop (i + 1) n ids ps vs c3 s5"
    using True
    by (subst setTargetPositions_loop.simps)
       (simp add: Let_def split_beta c3_def s5_def convertIntToBytes_eq sendAndUpdateChecksum_eq)
  have w5: "written s5 = written s @ spec_block (ids ! i, ps ! i, vs ! i)"
    by (simp add: s5_def convertIntToBytes_eq sendAndUpdateChecksum_eq port_write1_written
        spec_block_def)
  have c3: "c3 = c + sum_list (spec_block (ids ! i, ps ! i, vs ! i))"
    by (simp add: c3_def spec_block_def add.assoc)
  have "k = n - (i + 1)" and "i + 1 \<le> n"
    using Suc(2) True by simp_all
  then have IH: "fst (setTargetPositions_loop (i + 1) n ids ps vs c3 s5)
         = c3 + sum_list (concat (map spec_block (drop (i + 1) ?z)))
     \<and> written (snd (setTargetPositions_loop (i + 1) n ids ps vs c3 s5))
         = written s5 @ concat (map spec_block (drop (i + 1) ?z))"
    by (rule Suc(1))
  show ?case
    unfolding step dr using IH by (simp add: w5 c3 add.assoc)
qed

lemma setTargetPositions_written:
  assumes "length servoIds = n" and "length positions = n" and "length speeds = n"
    and "n \<le> 255"
  shows "let body = [0xFE, of_nat (n * 7 + 4), 0x83, TARGET_POSITION R, 0x06]
                     @ concat (map spec_block (zip servoIds (zip positions speeds)))
          in written (setTargetPositions R (of_nat n) servoIds positions speeds s)
             = written s @ [0xFF, 0xFF] @ body @ [NOT (sum_list body)]"
proof -
  have un: "unat (of_nat n :: byte) = n"
    using assms(4) by (simp add: unat_of_nat_byte)
  have z: "take n (zip servoIds (zip positions speeds)) = zip servoIds (zip positions speeds)"
    using assms by simp
  obtain c s8 where lp: "setTargetPositions_loop 0 n servoIds positions speeds
      (of_nat (0xFE + n * 7 + 4 + unat SYNCWRITE + unat (TARGET_POSITION R) + 6))
      (port_write1 6 (port_write1 (TARGET_POSITION R) (port_write1 SYNCWRITE
         (port_write1 (of_nat (n * 7 + 4)) (port_write1 0xFE (port_write1 0xFF
            (port_write1 0xFF s))))))) = (c, s8)"
    by fastforce
  have "n \<le> length servoIds" "n \<le> length positions" "n \<le> length speeds"
    using assms by simp_all
  from setTargetPositions_loop_eq [OF this le0, of "of_nat (0xFE + n * 7 + 4 + unat SYNCWRITE + unat (TARGET_POSITION R) + 6)"
      "(port_write1 6 (port_write1 (TARGET_POSITION R) (port_write1 SYNCWRITE
         (port_write1 (of_nat (n * 7 + 4)) (port_write1 0xFE (port_write1 0xFF
            (port_write1 0xFF s)))))))"]
  have c: "c = of_nat (0xFE + n * 7 + 4 + unat SYNCWRITE + unat (TARGET_POSITION R) + 6)
              + sum_list (concat (map spec_block (zip servoIds (zip positions speeds))))"
    and w: "written s8 = written s @ [0xFF, 0xFF, 0xFE, of_nat (n * 7 + 4), SYNCWRITE,
               TARGET_POSITION R, 6]
             @ concat (map spec_block (zip servoIds (zip positions speeds)))"
    unfolding lp z by (simp_all add: port_write1_written del: of_nat_add of_nat_Suc of_nat_mult)
  have c': "c = sum_list ([0xFE, of_nat (n * 7 + 4), 0x83, TARGET_POSITION R, 0x06]
                     @ concat (map spec_block (zip servoIds (zip positions speeds))))"
  proof -
    have "(of_nat (0xFE + n * 7 + 4 + unat SYNCWRITE + unat (TARGET_POSITION R) + 6) :: byte)
          = 0xFE + (of_nat (n * 7 + 4) + (0x83 + (TARGET_POSITION R + 0x06)))"
      by (simp add: SYNCWRITE_def)
    then show ?thesis
      unfolding c by (simp only: sum_list_append sum_list.Cons sum_list.Nil add.assoc add_0_right)
  qed
  have "written (setTargetPositions R (of_nat n) servoIds positions speeds s)
        = written s8 @ [NOT c]"
    unfolding setTargetPositions_def Let_def un lp by (simp add: port_write1_written)
  then show ?thesis
    unfolding Let_def w c' by (simp add: SYNCWRITE_def)
qed

text \<open>
  C5, as amended. Given \<open>n\<close> device IDs with \<open>n\<close> positions and \<open>n\<close> speeds, for at most 35
  devices, \<open>setTargetPositions\<close> hands the port exactly one frame: \<open>FF FF FE\<close>, the length
  byte, whose value is \<open>n * 7 + 4\<close>, the SYNCWRITE code 0x83, the target-position register,
  the block width 6, then for each device in input order the seven bytes
  \<open>id posLo posHi 00 00 spdLo spdHi\<close> (the two low bytes of each \<open>int\<close>, low byte first), and
  last the bitwise NOT of the byte sum of everything after the two sync bytes.
\<close>

theorem setTargetPositions_frame:
  assumes "length servoIds = n" and "length positions = n" and "length speeds = n"
    and "n \<le> 35"
  shows "(let body = [0xFE, of_nat (n * 7 + 4), 0x83, TARGET_POSITION R, 0x06]
                     @ concat (map spec_block (zip servoIds (zip positions speeds)))
          in written (setTargetPositions R (of_nat n) servoIds positions speeds s)
             = written s @ [0xFF, 0xFF] @ body @ [NOT (sum_list body)])
         \<and> unat (of_nat (n * 7 + 4) :: byte) = n * 7 + 4"
proof
  from assms(4) have "n \<le> 255"
    by simp
  with assms(1-3)
  show "let body = [0xFE, of_nat (n * 7 + 4), 0x83, TARGET_POSITION R, 0x06]
                     @ concat (map spec_block (zip servoIds (zip positions speeds)))
          in written (setTargetPositions R (of_nat n) servoIds positions speeds s)
             = written s @ [0xFF, 0xFF] @ body @ [NOT (sum_list body)]"
    by (rule setTargetPositions_written)
  from assms(4) have "n * 7 + 4 < 256"
    by simp
  then show "unat (of_nat (n * 7 + 4) :: byte) = n * 7 + 4"
    by (simp add: unat_of_nat del: of_nat_add of_nat_Suc of_nat_mult)
qed

theorem setTargetPositions_frame_witness:
  "length [1, 2 :: byte] = 2 \<and> length [100, 200 :: cint] = 2 \<and> length [50, 50 :: cint] = 2
   \<and> (2 :: nat) \<le> 35
   \<and> written (setTargetPositions example_registers 2 [1, 2] [100, 200] [50, 50]
                 (bus quiet_line []))
       = [0xFF, 0xFF, 0xFE, 18, 0x83, 0x2A, 0x06,
          0x01, 100, 0, 0, 0, 50, 0,
          0x02, 200, 0, 0, 0, 50, 0,
          0xA9]"
  using setTargetPositions_frame [of "[1, 2]" 2 "[100, 200]" "[50, 50]" example_registers
      "bus quiet_line []"]
  by (simp add: bus_def example_registers_def spec_block_def Let_def)

text \<open>
  C5 as stated fails from 36 devices on: \<open>36 * 7 + 4\<close> is 256, and the length byte that
  goes out, \<open>numberOfServos * 7 + 4\<close> cut to a byte, is 0.
\<close>

theorem setTargetPositions_frame_counterexample:
  "take 7 (written (setTargetPositions example_registers 36 (replicate 36 0x01)
                      (replicate 36 100) (replicate 36 50) (bus quiet_line [])))
     = [0xFF, 0xFF, 0xFE, 0x00, 0x83, 0x2A, 0x06]
   \<and> (36 * 7 + 4 :: nat) = 256"
  using setTargetPositions_written [of "replicate 36 0x01" 36 "replicate 36 100"
      "replicate 36 50" example_registers "bus quiet_line []"]
  by (simp add: Let_def bus_def example_registers_def)

subsection \<open>The sign-bit encoding of velocities\<close>

lemma fromTwoBytes_params: "fromTwoBytes (writeTwoBytesRegister_params w) = w"
proof -
  have lo: "(ucast ((scast w :: cint) AND 0xFF) :: byte) = ucast w"
    unfolding mask8 by (rule bit_word_eqI) (auto simp add: bit_simps)
  have hi: "(ucast (signed_drop_bit 8 (scast w :: cint) AND 0xFF) :: byte) = ucast (drop_bit 8 w)"
    unfolding mask8 by (rule bit_word_eqI) (auto simp add: bit_simps)
  have "(ucast (ucast w :: byte) :: cint) + push_bit 8 (ucast (ucast (drop_bit 8 w) :: byte))
        = ucast (ucast w :: byte) OR push_bit 8 (ucast (ucast (drop_bit 8 w) :: byte))"
    by (rule disjunctive_add) (auto simp add: bit_simps)
  moreover have "(ucast ((ucast (ucast w :: byte) :: cint)
                   OR push_bit 8 (ucast (ucast (drop_bit 8 w) :: byte))) :: int16_t) = w"
    by (rule bit_word_eqI) (auto simp add: bit_simps)
  ultimately show ?thesis
    by (simp add: fromTwoBytes_def writeTwoBytesRegister_params_def lo hi)
qed


lemma bit15: "(0x8000 :: cint) = 2 ^ 15"
  by simp

lemma bit_0x8000: "bit (0x8000 :: cint) n \<longleftrightarrow> n = 15"
  by (subst bit15, subst bit_exp_iff) auto

lemma bit_0x8000_int: "bit (0x8000 :: int) n \<longleftrightarrow> n = 15"
proof -
  have "(0x8000 :: int) = 2 ^ 15" by simp
  then show ?thesis
    by (simp only: bit_exp_iff) auto
qed

lemma signedVel0_eq: "(ucast ((scast (w :: int16_t) :: cint) AND NOT 0x8000) :: int16_t) = take_bit 15 w"
  by (rule bit_word_eqI) (auto simp add: bit_simps bit_0x8000_int)

lemma sign_test: "((scast (w :: int16_t) :: cint) AND 0x8000 \<noteq> 0) \<longleftrightarrow> bit w 15"
proof -
  have "((scast w :: cint) AND 2 ^ 15 = 0) \<longleftrightarrow> \<not> bit (scast w :: cint) 15"
    by (rule and_exp_eq_0_iff_not_bit)
  moreover have "bit (scast w :: cint) 15 \<longleftrightarrow> bit w 15"
    by (simp add: bit_simps)
  ultimately show ?thesis
    unfolding bit15 by blast
qed


lemma ucast_neg_scast: "(ucast (- (scast (x :: int16_t) :: cint)) :: int16_t) = - x"
proof -
  have "- (scast x :: cint) = - word_of_int (sint x)"
    by (simp only: scast_eq)
  also have "\<dots> = word_of_int (- sint x)"
    by (simp only: of_int_minus)
  finally have "(ucast (- (scast x :: cint)) :: int16_t) = ucast (word_of_int (- sint x) :: cint)"
    by (rule arg_cong)
  also have "\<dots> = word_of_int (- sint x)"
    by (rule ucast_down_wi) (simp add: is_down)
  also have "\<dots> = - x"
    by (simp only: of_int_minus of_int_sint scast_id)
  finally show ?thesis .
qed

lemma signedVel_eq: "signedVel w = (if bit w 15 then - take_bit 15 w else take_bit 15 w)"
  by (simp only: signedVel_def Let_def signedVel0_eq sign_test ucast_neg_scast)


lemma small_int_bit15: "0 \<le> m \<Longrightarrow> m < 32768 \<Longrightarrow> \<not> bit (m :: int) n \<or> n < 15"
proof -
  assume "0 \<le> m" "m < 32768"
  then have "take_bit 15 m = m"
    by (simp add: take_bit_int_eq_self)
  then have "bit m n \<longleftrightarrow> bit (take_bit 15 m) n"
    by simp
  then show ?thesis
    by (auto simp add: bit_take_bit_iff)
qed

lemma feetech_nonneg:
  assumes "0 \<le> m" "m < 32768"
  shows "sint (signedVel (word_of_int m)) = m"
proof -
  have nb: "\<not> bit (word_of_int m :: int16_t) 15"
    using small_int_bit15 [OF assms, of 15] by (simp add: bit_word_of_int_iff)
  have tb: "take_bit 15 (word_of_int m :: int16_t) = word_of_int m"
    using small_int_bit15 [OF assms]
    by (intro bit_word_eqI) (auto simp add: bit_take_bit_iff bit_word_of_int_iff)
  have "sint (word_of_int m :: int16_t) = m"
    using assms by (simp add: sint_sbintrunc' signed_take_bit_int_eq_self)
  then show ?thesis
    by (simp add: signedVel_eq nb tb)
qed

lemma feetech_neg:
  assumes "0 < m" "m < 32768"
  shows "sint (signedVel (word_of_int m OR 0x8000)) = - m"
proof -
  have b15: "bit (0x8000 :: int16_t) n \<longleftrightarrow> n = 15" for n
    by (auto simp add: bit_simps bit_0x8000_int)
  have nb: "bit (word_of_int m OR 0x8000 :: int16_t) 15"
    by (simp add: bit_or_iff b15)
  have tb: "take_bit 15 (word_of_int m OR 0x8000 :: int16_t) = word_of_int m"
    using small_int_bit15 [of m] assms
    by (intro bit_word_eqI) (auto simp add: bit_take_bit_iff bit_or_iff b15 bit_word_of_int_iff)
  have "sint (- word_of_int m :: int16_t) = - m"
    using assms by (simp add: sint_sbintrunc' signed_take_bit_int_eq_self flip: of_int_minus)
  then show ?thesis
    by (simp only: signedVel_eq nb tb if_True)
qed


lemma feetech_round_trip:
  assumes "- 32767 \<le> sint velocity" "sint velocity \<le> 32767"
  shows "sint (signedVel (fromTwoBytes (writeTwoBytesRegister_params
           (ucast (feetechVelocity velocity))))) = sint velocity"
proof -
  define k where "k = sint velocity"
  have v: "velocity = word_of_int k"
    by (simp add: k_def)
  have k: "- 32767 \<le> k" "k \<le> 32767"
    using assms by (simp_all add: k_def)
  have down: "(ucast (word_of_int j :: cint) :: int16_t) = word_of_int j" for j
    by (rule ucast_down_wi) (simp add: is_down)
  show ?thesis
  proof (cases "k < 0")
    case False
    then have "feetechVelocity velocity = word_of_int k"
      by (simp add: feetechVelocity_def k_def)
    then have "(ucast (feetechVelocity velocity) :: int16_t) = word_of_int k"
      by (simp only: down)
    moreover have "sint (signedVel (word_of_int k)) = k"
      using False k by (intro feetech_nonneg) simp_all
    ultimately show ?thesis
      by (simp only: fromTwoBytes_params k_def)
  next
    case True
    define m where "m = - k"
    have m: "0 < m" "m < 32768"
      using True k by (simp_all add: m_def)
    have nv: "- velocity = word_of_int m"
      by (simp only: v m_def of_int_minus)
    have "feetechVelocity velocity = word_of_int m OR 0x8000"
      using True by (simp add: feetechVelocity_def k_def [symmetric] nv)
    moreover have "(ucast (word_of_int m OR 0x8000 :: cint) :: int16_t)
          = ucast (word_of_int m :: cint) OR ucast (0x8000 :: cint)"
      by (rule bit_word_eqI) (auto simp add: bit_simps)
    moreover have "(ucast (0x8000 :: cint) :: int16_t) = 0x8000"
      by simp
    ultimately have "(ucast (feetechVelocity velocity) :: int16_t) = word_of_int m OR 0x8000"
      by (simp only: down)
    moreover have "sint (signedVel (word_of_int m OR 0x8000)) = - m"
      using m by (rule feetech_neg)
    ultimately show ?thesis
      by (simp only: fromTwoBytes_params k_def m_def)
  qed
qed


lemma flush_eq: "flush s = s\<lparr>rxbuf := []\<rparr>"
proof (induction "rxbuf s" arbitrary: s)
  case Nil
  then show ?case
    by (subst flush.simps) (simp add: port_read_def)
next
  case (Cons b bs)
  from Cons(2) have rx: "rxbuf s = b # bs" by simp
  have "bs = rxbuf (s\<lparr>rxbuf := bs\<rparr>)" by simp
  then have "flush (s\<lparr>rxbuf := bs\<rparr>) = s\<lparr>rxbuf := bs\<rparr>\<lparr>rxbuf := []\<rparr>"
    by (rule Cons(1))
  moreover have "uint b \<noteq> - 1"
    using uint_ge_0 [of b] by linarith
  ultimately show ?case
    by (subst flush.simps) (simp add: port_read_def rx)
qed

lemma readRegisters_fst:
  "fst (readRegisters sid reg rl out s) =
     (if fst (sendMessage sid READ 2 [reg, rl] (flush s)) \<noteq> 8 then Inl (- 1)
      else case fst (receiveMessage sid (rl + 1) (replicate (unat rl + 1) 0)
                       (snd (sendMessage sid READ 2 [reg, rl] (flush s)))) of
             Inl rc \<Rightarrow> Inl rc
           | Inr r \<Rightarrow> Inr (copy_loop 0 (unat rl) 1 r out))"
  by (simp add: readRegisters_def Let_def split_beta add.commute split: sum.splits)

lemma readRegister_fst:
  "fst (readRegister sid reg s) =
     (case fst (readRegisters sid reg 1 [0] s) of Inl rc \<Rightarrow> 0 | Inr r \<Rightarrow> r ! 0)"
  by (cases "readRegisters sid reg 1 [0] s") (simp add: readRegister_def split: sum.splits)

lemma readTwoBytesRegister_fst:
  "fst (readTwoBytesRegister sid reg s) =
     (case fst (readRegisters sid reg 2 [0, 0] s) of Inl rc \<Rightarrow> 0 | Inr r \<Rightarrow> fromTwoBytes r)"
  by (cases "readRegisters sid reg 2 [0, 0] s")
     (simp add: readTwoBytesRegister_def split: sum.splits)

lemma setTargetVelocity_written:
  "written (snd (setTargetVelocity R servoId velocity asynchronous s))
   = written s @ spec_frame servoId (if asynchronous then REGWRITE else WRITE)
       (RUNNING_SPEED R # writeTwoBytesRegister_params (ucast (feetechVelocity velocity)))"
proof -
  have "length (writeTwoBytesRegister_params w) = 2" for w
    by (simp add: writeTwoBytesRegister_params_def)
  then show ?thesis
    using writeRegisters_frame [of "writeTwoBytesRegister_params (ucast (feetechVelocity velocity))"
        servoId "RUNNING_SPEED R" asynchronous s]
    by (simp add: setTargetVelocity_def writeTwoBytesRegister_def)
qed

text \<open>
  C6. For every velocity \<open>v\<close> in \<open>[-32767, 32767]\<close>: \<open>setTargetVelocity\<close> writes one frame of
  nine bytes whose two data bytes \<open>lo\<close>, \<open>hi\<close> hold \<open>abs(v)\<close> with bit 15 set for a negative
  \<open>v\<close>, low byte first; whenever the register read of the current speed delivers these
  two bytes, \<open>getCurrentSpeed\<close> (bit 15 cleared for the magnitude, negated when bit 15 was
  set) returns exactly \<open>v\<close>.
\<close>

theorem velocity_round_trip:
  assumes "- 32767 \<le> sint velocity" and "sint velocity \<le> 32767"
    and "written (snd (setTargetVelocity R servoId velocity asynchronous s))
         = written s @ [0xFF, 0xFF, servoId, len, cmd, reg, lo, hi, chk]"
    and "fst (readRegisters servoId' (CURRENT_SPEED R) 2 [0, 0] s') = Inr [lo, hi]"
  shows "fst (getCurrentSpeed R servoId' s') = velocity"
proof -
  obtain p0 p1 where p: "writeTwoBytesRegister_params (ucast (feetechVelocity velocity)) = [p0, p1]"
    by (simp add: writeTwoBytesRegister_params_def)
  have "[lo, hi] = [p0, p1]"
    using assms(3) by (simp add: setTargetVelocity_written p spec_frame_def)
  then have "fst (readTwoBytesRegister servoId' (CURRENT_SPEED R) s')
      = fromTwoBytes (writeTwoBytesRegister_params (ucast (feetechVelocity velocity)))"
    using assms(4) by (simp add: readTwoBytesRegister_fst p)
  then have "fst (getCurrentSpeed R servoId' s')
      = scast (signedVel (fromTwoBytes (writeTwoBytesRegister_params
           (ucast (feetechVelocity velocity)))))"
    by (simp add: getCurrentSpeed_def split_beta)
  also have "\<dots> = word_of_int (sint (signedVel (fromTwoBytes (writeTwoBytesRegister_params
           (ucast (feetechVelocity velocity))))))"
    by (rule scast_eq)
  also have "\<dots> = word_of_int (sint velocity)"
    by (simp only: feetech_round_trip [OF assms(1,2)])
  also have "\<dots> = velocity"
    by simp
  finally show ?thesis .
qed

theorem velocity_round_trip_witness:
  "- 32767 \<le> sint (- 1234 :: cint) \<and> sint (- 1234 :: cint) \<le> 32767
   \<and> written (snd (setTargetVelocity example_registers 1 (- 1234) False (bus quiet_line [])))
       = [0xFF, 0xFF, 0x01, 0x05, 0x03, 0x2E, 0xD2, 0x84, 0x72]
   \<and> fst (readRegisters 1 (CURRENT_SPEED example_registers) 2 [0, 0]
            (bus (reply_line [0xFF, 0xFF, 0x01, 0x04, 0x00, 0xD2, 0x84, 0xA4]) []))
       = Inr [0xD2, 0x84]
   \<and> fst (getCurrentSpeed example_registers 1
            (bus (reply_line [0xFF, 0xFF, 0x01, 0x04, 0x00, 0xD2, 0x84, 0xA4]) [])) = - 1234"
proof -
  have a: "- 32767 \<le> sint (- 1234 :: cint)" "sint (- 1234 :: cint) \<le> 32767"
    by simp_all
  have b: "written (snd (setTargetVelocity example_registers 1 (- 1234) False (bus quiet_line [])))
       = written (bus quiet_line []) @ [0xFF, 0xFF, 0x01, 0x05, 0x03, 0x2E, 0xD2, 0x84, 0x72]"
    by (simp add: setTargetVelocity_written spec_frame_def writeTwoBytesRegister_params_def
        feetechVelocity_def example_registers_def bus_def WRITE_def)
  have c: "fst (readRegisters 1 (CURRENT_SPEED example_registers) 2 [0, 0]
            (bus (reply_line [0xFF, 0xFF, 0x01, 0x04, 0x00, 0xD2, 0x84, 0xA4]) []))
       = Inr [0xD2, 0x84]"
    by (simp add: readRegisters_fst flush_eq sendMessage_eq receiveMessage_fst Let_def bus_def
        reply_line_def READ_def example_registers_def receiveMessage_sum.simps copy_loop.simps)
  show ?thesis
    using velocity_round_trip [OF a b c] a b c by (simp add: bus_def)
qed

subsection \<open>The guards of setId\<close>

lemma ping_fst:
  "fst (ping sid s) =
     (if fst (sendMessage sid PING 0 [0xFF] s) \<noteq> 6 then False
      else case fst (receiveMessage sid 1 [0xFF] (snd (sendMessage sid PING 0 [0xFF] s))) of
             Inl rc \<Rightarrow> False
           | Inr r \<Rightarrow> r ! 0 = 0)"
  by (simp add: ping_def Let_def split_beta split: sum.splits)

lemma ping_servo_line:
  "ping sid (bus (servo_line sid) []) =
     (True, (bus (servo_line sid) [])
              \<lparr>written := [0xFF, 0xFF, sid, 0x02, 0x01, NOT (sid + 3)]\<rparr>)"
proof -
  have "fst (ping sid (bus (servo_line sid) []))"
    by (simp add: ping_fst sendMessage_eq receiveMessage_fst Let_def bus_def servo_line_def
        PING_def add.commute receiveMessage_sum.simps copy_loop.simps)
  moreover have "snd (ping sid (bus (servo_line sid) []))
      = (bus (servo_line sid) [])\<lparr>written := [0xFF, 0xFF, sid, 0x02, 0x01, NOT (sid + 3)]\<rparr>"
    by (simp add: ping_snd sendMessage_eq receiveMessage_state Let_def bus_def servo_line_def
        PING_def add.commute)
  ultimately show ?thesis
    by (simp add: prod_eq_iff)
qed

text \<open>
  C7. \<open>setId\<close> returns failure and transmits no write frame whenever either ID is at
  least 0xFE (then nothing at all is sent and the driver is unchanged) and whenever, with
  both IDs below 0xFE, the new ID answers the Ping (then the Ping frame for the new ID is
  the only frame sent, and the driver is left as that Ping leaves it).
\<close>

theorem setId_guards:
  "(0xFE \<le> oldServoId \<or> 0xFE \<le> newServoId \<longrightarrow>
      setId R oldServoId newServoId s = (False, s))
   \<and> (oldServoId < 0xFE \<and> newServoId < 0xFE \<and> fst (ping newServoId s) \<longrightarrow>
      setId R oldServoId newServoId s = (False, snd (ping newServoId s))
      \<and> written (snd (setId R oldServoId newServoId s))
          = written s @ [0xFF, 0xFF, newServoId, 0x02, 0x01, NOT (newServoId + 3)])"
proof (intro conjI impI)
  assume "0xFE \<le> oldServoId \<or> 0xFE \<le> newServoId"
  then show "setId R oldServoId newServoId s = (False, s)"
    by (simp add: setId_def)
next
  assume a: "oldServoId < 0xFE \<and> newServoId < 0xFE \<and> fst (ping newServoId s)"
  then have "\<not> (0xFE \<le> oldServoId \<or> 0xFE \<le> newServoId)"
    by (simp add: not_le)
  then show eq: "setId R oldServoId newServoId s = (False, snd (ping newServoId s))"
    using a by (cases "ping newServoId s") (simp add: setId_def)
  show "written (snd (setId R oldServoId newServoId s))
          = written s @ [0xFF, 0xFF, newServoId, 0x02, 0x01, NOT (newServoId + 3)]"
    by (simp add: eq ping_written)
qed

theorem setId_guards_witness:
  "setId example_registers 0xFE 3 (bus (servo_line 9) []) = (False, bus (servo_line 9) [])
   \<and> (5 :: byte) < 0xFE \<and> (10 :: byte) < 0xFE \<and> fst (ping 10 (bus (servo_line 10) []))
   \<and> fst (setId example_registers 5 10 (bus (servo_line 10) [])) = False
   \<and> written (snd (setId example_registers 5 10 (bus (servo_line 10) [])))
       = [0xFF, 0xFF, 0x0A, 0x02, 0x01, 0xF2]"
  using setId_guards [of "0xFE" 3 example_registers "bus (servo_line 9) []"]
    setId_guards [of 5 10 example_registers "bus (servo_line 10) []"]
    ping_servo_line [of 10]
  by (simp add: bus_def)

subsection \<open>The discovery sweep of init\<close>

lemma after_pings_Suc: "after_pings (Suc k) s = snd (ping (of_nat k) (after_pings k s))"
  by (simp add: after_pings_def)

lemma after_pings_0: "after_pings 0 s = s"
  by (simp add: after_pings_def)

lemma of_nat_less_FE: "k \<le> 254 \<Longrightarrow> (of_nat k :: byte) < 0xFE \<longleftrightarrow> k < 254"
  by (simp add: word_less_nat_alt unat_of_nat_byte)

lemma init_loop_skip:
  assumes "k \<le> 254" "\<forall>j<k. \<not> fst (ping (of_nat j) (after_pings j s))"
  shows "init_loop 0 s = init_loop (of_nat k) (after_pings k s)"
  using assms
proof (induction k)
  case 0
  then show ?case by (simp add: after_pings_0)
next
  case (Suc k)
  then have IH: "init_loop 0 s = init_loop (of_nat k) (after_pings k s)"
    by simp
  have lt: "(of_nat k :: byte) < 0xFE"
    using Suc(2) by (simp add: of_nat_less_FE)
  have no: "\<not> fst (ping (of_nat k) (after_pings k s))"
    using Suc(3) by simp
  have "init_loop (of_nat k) (after_pings k s)
        = init_loop (of_nat k + 1) (snd (ping (of_nat k) (after_pings k s)))"
    using lt no
    by (subst init_loop.simps) (cases "ping (of_nat k) (after_pings k s)", simp)
  then show ?case
    by (simp add: IH after_pings_Suc add.commute)
qed

lemma init_found:
  assumes "k < 254" "\<forall>j<k. \<not> fst (ping (of_nat j) (after_pings j s))"
    and "fst (ping (of_nat k) (after_pings k s))"
  shows "init s = (True, after_pings (Suc k) s)"
proof -
  have "init_loop 0 s = init_loop (of_nat k) (after_pings k s)"
    using assms by (intro init_loop_skip) simp_all
  moreover have "(of_nat k :: byte) < 0xFE"
    using assms(1) by (simp add: of_nat_less_FE)
  ultimately show ?thesis
    using assms(3)
    by (subst (asm) (2) init_loop.simps)
       (cases "ping (of_nat k) (after_pings k s)", simp add: init_def after_pings_Suc)
qed

lemma init_none:
  assumes "\<forall>j<254. \<not> fst (ping (of_nat j) (after_pings j s))"
  shows "init s = (False, after_pings 254 s)"
proof -
  have "init_loop 0 s = init_loop (of_nat 254) (after_pings 254 s)"
    using assms by (intro init_loop_skip) simp_all
  then show ?thesis
    by (subst (asm) (2) init_loop.simps) (simp add: init_def)
qed

lemma ping_silent:
  assumes "rxbuf s = []"
    and "fst (snd (line s (env s) [0xFF, 0xFF, sid, 0x02, 0x01, NOT (sid + 3)])) = []"
  shows "\<not> fst (ping sid s)" and "rxbuf (snd (ping sid s)) = []"
    and "line (snd (ping sid s)) = line s"
  using assms
  by (simp_all add: ping_fst ping_snd sendMessage_eq receiveMessage_fst receiveMessage_state
      Let_def PING_def add.commute)

lemma after_pings_quiet:
  assumes "rxbuf s = []" "line s = quiet_line"
  shows "rxbuf (after_pings k s) = [] \<and> line (after_pings k s) = quiet_line"
proof (induction k)
  case 0
  then show ?case using assms by (simp add: after_pings_0)
next
  case (Suc k)
  then show ?case
    by (simp add: after_pings_Suc ping_silent quiet_line_def)
qed

lemma quiet_bus_silent: "\<not> fst (ping sid (after_pings k (bus quiet_line [])))"
  using after_pings_quiet [of "bus quiet_line []" k]
  by (intro ping_silent) (simp_all add: bus_def quiet_line_def)

lemma after_pings_written_length:
  "length (written (after_pings k s)) = length (written s) + 6 * k"
  by (induction k) (simp_all add: after_pings_0 after_pings_Suc ping_written)

text \<open>
  C8, as amended. The sweep of \<open>init\<close> pings the candidate IDs 0x00 through 0xFD in
  ascending order, each once. When \<open>k\<close> is the first ID whose Ping succeeds (response with
  status byte 0x00), \<open>init\<close> stops there, having sent exactly the pings of \<open>0, \<dots>, k\<close>, and
  returns \<open>true\<close>; the result does not tell which ID answered. When none of the 254
  candidates answers, it returns \<open>false\<close> after the 254 pings.
\<close>

theorem init_sweep:
  "(k < 254 \<and> (\<forall>j<k. \<not> fst (ping (of_nat j) (after_pings j s)))
      \<and> fst (ping (of_nat k) (after_pings k s)) \<longrightarrow>
        init s = (True, after_pings (Suc k) s))
   \<and> ((\<forall>j<254. \<not> fst (ping (of_nat j) (after_pings j s))) \<longrightarrow>
        init s = (False, after_pings 254 s))"
proof (intro conjI impI)
  assume "k < 254 \<and> (\<forall>j<k. \<not> fst (ping (of_nat j) (after_pings j s)))
      \<and> fst (ping (of_nat k) (after_pings k s))"
  then show "init s = (True, after_pings (Suc k) s)"
    by (intro init_found) simp_all
next
  assume "\<forall>j<254. \<not> fst (ping (of_nat j) (after_pings j s))"
  then show "init s = (False, after_pings 254 s)"
    by (rule init_none)
qed

lemma ping_0_servo_1:
  "ping 0 (bus (servo_line 1) [])
   = (False, (bus (servo_line 1) [])\<lparr>written := [0xFF, 0xFF, 0x00, 0x02, 0x01, 0xFC]\<rparr>)"
proof -
  have "\<not> fst (ping 0 (bus (servo_line 1) []))"
    by (rule ping_silent) (simp_all add: bus_def servo_line_def)
  moreover have "snd (ping 0 (bus (servo_line 1) []))
      = (bus (servo_line 1) [])\<lparr>written := [0xFF, 0xFF, 0x00, 0x02, 0x01, 0xFC]\<rparr>"
    by (simp add: ping_snd sendMessage_eq receiveMessage_state Let_def bus_def servo_line_def
        PING_def)
  ultimately show ?thesis
    by (simp add: prod_eq_iff)
qed

lemma ping_1_servo_1:
  "ping 1 ((bus (servo_line 1) [])\<lparr>written := w\<rparr>)
   = (True, (bus (servo_line 1) [])\<lparr>written := w @ [0xFF, 0xFF, 0x01, 0x02, 0x01, 0xFB]\<rparr>)"
proof -
  have "fst (ping 1 ((bus (servo_line 1) [])\<lparr>written := w\<rparr>))"
    by (simp add: ping_fst sendMessage_eq receiveMessage_fst Let_def bus_def servo_line_def
        PING_def receiveMessage_sum.simps copy_loop.simps)
  moreover have "snd (ping 1 ((bus (servo_line 1) [])\<lparr>written := w\<rparr>))
      = (bus (servo_line 1) [])\<lparr>written := w @ [0xFF, 0xFF, 0x01, 0x02, 0x01, 0xFB]\<rparr>"
    by (simp add: ping_snd sendMessage_eq receiveMessage_state Let_def bus_def servo_line_def
        PING_def)
  ultimately show ?thesis
    by (simp add: prod_eq_iff)
qed

theorem init_sweep_witness:
  "init (bus (servo_line 1) [])
     = (True, (bus (servo_line 1) [])
         \<lparr>written := [0xFF, 0xFF, 0x00, 0x02, 0x01, 0xFC, 0xFF, 0xFF, 0x01, 0x02, 0x01, 0xFB]\<rparr>)
   \<and> fst (init (bus quiet_line [])) = False
   \<and> length (written (snd (init (bus quiet_line [])))) = 254 * 6"
proof -
  have a1: "after_pings (Suc 0) (bus (servo_line 1) [])
      = (bus (servo_line 1) [])\<lparr>written := [0xFF, 0xFF, 0x00, 0x02, 0x01, 0xFC]\<rparr>"
    using after_pings_Suc [of 0 "bus (servo_line 1) []"]
    by (simp add: after_pings_0 ping_0_servo_1)
  have a2: "after_pings (Suc (Suc 0)) (bus (servo_line 1) [])
      = (bus (servo_line 1) [])
         \<lparr>written := [0xFF, 0xFF, 0x00, 0x02, 0x01, 0xFC, 0xFF, 0xFF, 0x01, 0x02, 0x01, 0xFB]\<rparr>"
    using after_pings_Suc [of "Suc 0" "bus (servo_line 1) []"]
    by (simp add: a1 ping_1_servo_1)
  have h: "(1 :: nat) < 254 \<and> (\<forall>j<1. \<not> fst (ping (of_nat j) (after_pings j (bus (servo_line 1) []))))
      \<and> fst (ping (of_nat 1) (after_pings 1 (bus (servo_line 1) [])))"
    by (simp add: after_pings_0 ping_0_servo_1 a1 ping_1_servo_1)
  have q: "\<forall>j<254. \<not> fst (ping (of_nat j) (after_pings j (bus quiet_line [])))"
    by (simp add: quiet_bus_silent)
  show ?thesis
    using init_sweep [of 1 "bus (servo_line 1) []"] init_sweep [of 0 "bus quiet_line []"] h q
    by (simp add: a2 after_pings_written_length) (simp add: bus_def)
qed

text \<open>
  C8 as stated fails in the value returned: on a bus where servo 0 answers and on a bus
  where servo 1 is the first to answer, \<open>init\<close> returns the same value \<open>true\<close>, which
  therefore is not the ID of the first responding device.
\<close>

theorem init_sweep_counterexample:
  "fst (ping 0 (bus (servo_line 0) [])) \<and> fst (init (bus (servo_line 0) [])) = True
   \<and> \<not> fst (ping 0 (bus (servo_line 1) []))
   \<and> fst (ping 1 (snd (ping 0 (bus (servo_line 1) []))))
   \<and> fst (init (bus (servo_line 1) [])) = True"
proof -
  have p0: "fst (ping 0 (bus (servo_line 0) []))"
    by (simp add: ping_servo_line)
  then have i0: "init (bus (servo_line 0) []) = (True, after_pings (Suc 0) (bus (servo_line 0) []))"
    by (intro init_found) (simp_all add: after_pings_0)
  have a1: "after_pings (Suc 0) (bus (servo_line 1) [])
      = (bus (servo_line 1) [])\<lparr>written := [0xFF, 0xFF, 0x00, 0x02, 0x01, 0xFC]\<rparr>"
    using after_pings_Suc [of 0 "bus (servo_line 1) []"]
    by (simp add: after_pings_0 ping_0_servo_1)
  have "init (bus (servo_line 1) []) = (True, after_pings (Suc (Suc 0)) (bus (servo_line 1) []))"
    by (intro init_found) (simp_all add: after_pings_0 ping_0_servo_1 a1 ping_1_servo_1)
  then show ?thesis
    using p0 i0 by (simp add: ping_0_servo_1 ping_1_servo_1)
qed

subsection \<open>The broadcast address as a device ID\<close>

lemma readRegisters_snd:
  "snd (readRegisters sid reg rl out s) =
     (if fst (sendMessage sid READ 2 [reg, rl] (flush s)) \<noteq> 8
      then snd (sendMessage sid READ 2 [reg, rl] (flush s))
      else snd (receiveMessage sid (rl + 1) (replicate (unat rl + 1) 0)
                  (snd (sendMessage sid READ 2 [reg, rl] (flush s)))))"
  by (simp add: readRegisters_def Let_def split_beta add.commute split: sum.splits)

lemma readRegisters_written:
  "written (snd (readRegisters sid reg rl out s)) = written s @ spec_frame sid READ [reg, rl]"
  by (simp add: readRegisters_snd sendMessage_eq receiveMessage_state flush_eq Let_def
      spec_frame_def)

lemma readTwoBytesRegister_snd:
  "snd (readTwoBytesRegister sid reg s) = snd (readRegisters sid reg 2 [0, 0] s)"
  by (cases "readRegisters sid reg 2 [0, 0] s")
     (simp add: readTwoBytesRegister_def split: sum.splits)

lemma readRegister_snd:
  "snd (readRegister sid reg s) = snd (readRegisters sid reg 1 [0] s)"
  by (cases "readRegisters sid reg 1 [0] s") (simp add: readRegister_def split: sum.splits)

lemma writeRegister_written:
  "written (snd (writeRegister sid reg v a s))
   = written s @ spec_frame sid (if a then REGWRITE else WRITE) [reg, v]"
  using writeRegisters_frame [of "[v]" sid reg a s]
  by (simp add: writeRegister_def)

lemma writeTwoBytesRegister_written:
  "written (snd (writeTwoBytesRegister sid reg val a s))
   = written s @ spec_frame sid (if a then REGWRITE else WRITE)
       (reg # writeTwoBytesRegister_params val)"
proof -
  have "length (writeTwoBytesRegister_params val) = 2"
    by (simp add: writeTwoBytesRegister_params_def)
  then show ?thesis
    using writeRegisters_frame [of "writeTwoBytesRegister_params val" sid reg a s]
    by (simp add: writeTwoBytesRegister_def)
qed

lemma setPositionOffset_written:
  "\<exists>rest. written (snd (setPositionOffset R sid positionOffset s))
     = written s @ spec_frame sid (if asynchronous_default R then REGWRITE else WRITE)
         [WRITE_LOCK R, 0] @ rest"
proof -
  let ?a = "asynchronous_default R"
  obtain b1 s1 where w1: "writeRegister sid (WRITE_LOCK R) 0 ?a s = (b1, s1)"
    by fastforce
  obtain b2 s2 where w2: "writeTwoBytesRegister sid (POSITION_CORRECTION R)
      (ucast positionOffset) ?a s1 = (b2, s2)"
    by fastforce
  obtain b3 s3 where w3: "writeRegister sid (WRITE_LOCK R) 1 ?a s2 = (b3, s3)"
    by fastforce
  have e1: "written s1 = written s @ spec_frame sid (if ?a then REGWRITE else WRITE)
      [WRITE_LOCK R, 0]"
    using writeRegister_written [of sid "WRITE_LOCK R" 0 ?a s] by (simp add: w1)
  have e2: "written s2 = written s1 @ spec_frame sid (if ?a then REGWRITE else WRITE)
      (POSITION_CORRECTION R # writeTwoBytesRegister_params (ucast positionOffset))"
    using writeTwoBytesRegister_written [of sid "POSITION_CORRECTION R" "ucast positionOffset" ?a s1]
    by (simp add: w2)
  have e3: "written s3 = written s2 @ spec_frame sid (if ?a then REGWRITE else WRITE)
      [WRITE_LOCK R, 1]"
    using writeRegister_written [of sid "WRITE_LOCK R" 1 ?a s2] by (simp add: w3)
  have "snd (setPositionOffset R sid positionOffset s)
      = (if \<not> b1 then s1 else if \<not> b2 then s2 else s3)"
    by (cases b1; cases b2; cases b3) (simp_all add: setPositionOffset_def w1 w2 w3)
  then show ?thesis
    by (cases b1; cases b2) (simp_all add: e1 e2 e3)
qed

lemma setTargetPosition_written:
  "written (snd (setTargetPosition R sid position speed asynchronous s))
   = written s @ spec_frame sid (if asynchronous then REGWRITE else WRITE)
       [TARGET_POSITION R, ucast position, ucast (drop_bit 8 position), 0, 0,
        ucast speed, ucast (drop_bit 8 speed)]"
  using writeRegisters_frame [of "[ucast position, ucast (drop_bit 8 position), 0, 0,
        ucast speed, ucast (drop_bit 8 speed)]" sid "TARGET_POSITION R" asynchronous s]
  by (simp add: setTargetPosition_def Let_def low_byte high_byte)

text \<open>
  C9, as amended. Only \<open>setId\<close> looks at the broadcast address: it returns failure,
  with no bus traffic, when either of its IDs is 0xFE. \<open>ping\<close>, \<open>readRegisters\<close>,
  \<open>writeRegisters\<close> and the status getters and motion setters built on them make no test
  on the device ID: given 0xFE they transmit their usual frame with 0xFE in the ID byte.
  \<open>setPositionOffset\<close> likewise starts with its unlock frame addressed to 0xFE.
\<close>

theorem broadcast_id_unchecked:
  "setId R 0xFE newServoId s = (False, s) \<and> setId R oldServoId 0xFE s = (False, s)
   \<and> written (snd (ping 0xFE s)) = written s @ [0xFF, 0xFF, 0xFE, 0x02, 0x01, 0xFE]
   \<and> written (snd (readRegisters 0xFE startRegister readLength outputBuffer s))
       = written s @ spec_frame 0xFE READ [startRegister, readLength]
   \<and> (length bytes \<le> 254 \<longrightarrow>
        written (snd (writeRegisters 0xFE startRegister (of_nat (length bytes)) bytes
                        asynchronous s))
        = written s @ spec_frame 0xFE (if asynchronous then REGWRITE else WRITE)
                        (startRegister # bytes))
   \<and> written (snd (getCurrentPosition R 0xFE s))
       = written s @ spec_frame 0xFE READ [CURRENT_POSITION R, 2]
   \<and> written (snd (getCurrentSpeed R 0xFE s))
       = written s @ spec_frame 0xFE READ [CURRENT_SPEED R, 2]
   \<and> written (snd (getCurrentTemperature R 0xFE s))
       = written s @ spec_frame 0xFE READ [CURRENT_TEMPERATURE R, 2]
   \<and> written (snd (isMoving R 0xFE s))
       = written s @ spec_frame 0xFE READ [MOVING_STATUS R, 1]
   \<and> written (snd (setTargetPosition R 0xFE position speed asynchronous s))
       = written s @ spec_frame 0xFE (if asynchronous then REGWRITE else WRITE)
           [TARGET_POSITION R, ucast position, ucast (drop_bit 8 position), 0, 0,
            ucast speed, ucast (drop_bit 8 speed)]
   \<and> written (snd (setTargetVelocity R 0xFE velocity asynchronous s))
       = written s @ spec_frame 0xFE (if asynchronous then REGWRITE else WRITE)
           (RUNNING_SPEED R # writeTwoBytesRegister_params (ucast (feetechVelocity velocity)))
   \<and> written (snd (setTargetAcceleration R 0xFE acceleration asynchronous s))
       = written s @ spec_frame 0xFE (if asynchronous then REGWRITE else WRITE)
           [TARGET_ACCELERATION R, acceleration]
   \<and> (\<exists>rest. written (snd (setPositionOffset R 0xFE positionOffset s))
       = written s @ spec_frame 0xFE (if asynchronous_default R then REGWRITE else WRITE)
           [WRITE_LOCK R, 0] @ rest)"
proof (intro conjI impI)
  show "\<exists>rest. written (snd (setPositionOffset R 0xFE positionOffset s))
       = written s @ spec_frame 0xFE (if asynchronous_default R then REGWRITE else WRITE)
           [WRITE_LOCK R, 0] @ rest"
    by (rule setPositionOffset_written)
  show "written (snd (getCurrentSpeed R 0xFE s))
       = written s @ spec_frame 0xFE READ [CURRENT_SPEED R, 2]"
    by (simp add: getCurrentSpeed_def split_beta readTwoBytesRegister_snd
        readRegisters_written)
  show "written (snd (getCurrentTemperature R 0xFE s))
       = written s @ spec_frame 0xFE READ [CURRENT_TEMPERATURE R, 2]"
    by (simp add: getCurrentTemperature_def split_beta readTwoBytesRegister_snd
        readRegisters_written)
  show "written (snd (isMoving R 0xFE s))
       = written s @ spec_frame 0xFE READ [MOVING_STATUS R, 1]"
    by (simp add: isMoving_def split_beta readRegister_snd readRegisters_written)
  show "written (snd (setTargetVelocity R 0xFE velocity asynchronous s))
       = written s @ spec_frame 0xFE (if asynchronous then REGWRITE else WRITE)
           (RUNNING_SPEED R # writeTwoBytesRegister_params (ucast (feetechVelocity velocity)))"
    by (rule setTargetVelocity_written)
  show "written (snd (setTargetAcceleration R 0xFE acceleration asynchronous s))
       = written s @ spec_frame 0xFE (if asynchronous then REGWRITE else WRITE)
           [TARGET_ACCELERATION R, acceleration]"
    using writeRegisters_frame [of "[acceleration]" "0xFE" "TARGET_ACCELERATION R"
        asynchronous s]
    by (simp add: setTargetAcceleration_def writeRegister_def)
  show "setId R 0xFE newServoId s = (False, s)" "setId R oldServoId 0xFE s = (False, s)"
    by (simp_all add: setId_def)
  show "written (snd (ping 0xFE s)) = written s @ [0xFF, 0xFF, 0xFE, 0x02, 0x01, 0xFE]"
    by (simp add: ping_written)
  show "written (snd (readRegisters 0xFE startRegister readLength outputBuffer s))
       = written s @ spec_frame 0xFE READ [startRegister, readLength]"
    by (rule readRegisters_written)
  show "written (snd (getCurrentPosition R 0xFE s))
       = written s @ spec_frame 0xFE READ [CURRENT_POSITION R, 2]"
    by (simp add: getCurrentPosition_def split_beta readTwoBytesRegister_snd
        readRegisters_written)
  show "written (snd (setTargetPosition R 0xFE position speed asynchronous s))
       = written s @ spec_frame 0xFE (if asynchronous then REGWRITE else WRITE)
           [TARGET_POSITION R, ucast position, ucast (drop_bit 8 position), 0, 0,
            ucast speed, ucast (drop_bit 8 speed)]"
    by (rule setTargetPosition_written)
next
  assume "length bytes \<le> 254"
  then show "written (snd (writeRegisters 0xFE startRegister (of_nat (length bytes)) bytes
                        asynchronous s))
        = written s @ spec_frame 0xFE (if asynchronous then REGWRITE else WRITE)
                        (startRegister # bytes)"
    by (simp add: writeRegisters_frame)
qed

theorem broadcast_id_unchecked_witness:
  "setId example_registers 0xFE 3 (bus quiet_line []) = (False, bus quiet_line [])
   \<and> length [0x05, 0x06 :: byte] \<le> 254
   \<and> written (snd (writeRegisters 0xFE 0x2A 2 [0x05, 0x06] False (bus quiet_line [])))
       = [0xFF, 0xFF, 0xFE, 0x05, 0x03, 0x2A, 0x05, 0x06, 0xC4]
   \<and> written (snd (getCurrentPosition example_registers 0xFE (bus quiet_line [])))
       = [0xFF, 0xFF, 0xFE, 0x04, 0x02, 0x38, 0x02, 0xC1]"
  using broadcast_id_unchecked [where R = example_registers and newServoId = 3
      and s = "bus quiet_line []" and bytes = "[0x05, 0x06]" and startRegister = "0x2A"
      and asynchronous = False]
  by (simp add: bus_def spec_frame_def WRITE_def READ_def example_registers_def)

text \<open>
  C9 as stated fails: \<open>ping\<close> of 0xFE is sent and evaluated like the ping of any other
  ID, and returns \<open>true\<close> on a bus where that frame is answered.
\<close>

theorem broadcast_id_unchecked_counterexample:
  "ping 0xFE (bus (servo_line 0xFE) [])
   = (True, (bus (servo_line 0xFE) [])\<lparr>written := [0xFF, 0xFF, 0xFE, 0x02, 0x01, 0xFE]\<rparr>)"
  using ping_servo_line [of "0xFE"] by simp

subsection \<open>Failed register reads\<close>

lemma signedVel_0: "signedVel 0 = 0"
  by (simp add: signedVel_def)

text \<open>
  C10. Whenever \<open>readRegisters\<close> fails, with any return code \<open>rc\<close>, \<open>readRegister\<close> and
  \<open>readTwoBytesRegister\<close> return 0 and pass no error on, so that \<open>getCurrentPosition\<close>,
  \<open>getCurrentSpeed\<close> and \<open>getCurrentTemperature\<close> return 0 and \<open>isMoving\<close> returns false;
  a register that really reads zero gives the same 0. \<open>readRegisters\<close> fails with -1 when
  the port does not report the 8 bytes of the READ frame, and with the code of
  \<open>receiveMessage\<close> (-1 short read, -2 header, ID or length mismatch, -3 checksum mismatch)
  when the response is rejected.
\<close>

theorem read_failure_returns_zero:
  "(fst (readRegisters servoId registerId 1 [0] s) = Inl rc \<longrightarrow>
      fst (readRegister servoId registerId s) = 0)
   \<and> (fst (readRegisters servoId registerId 2 [0, 0] s) = Inl rc \<longrightarrow>
      fst (readTwoBytesRegister servoId registerId s) = 0)
   \<and> (fst (readRegisters servoId (CURRENT_POSITION R) 2 [0, 0] s) = Inl rc \<longrightarrow>
      fst (getCurrentPosition R servoId s) = 0)
   \<and> (fst (readRegisters servoId (CURRENT_SPEED R) 2 [0, 0] s) = Inl rc \<longrightarrow>
      fst (getCurrentSpeed R servoId s) = 0)
   \<and> (fst (readRegisters servoId (CURRENT_TEMPERATURE R) 2 [0, 0] s) = Inl rc \<longrightarrow>
      fst (getCurrentTemperature R servoId s) = 0)
   \<and> (fst (readRegisters servoId (MOVING_STATUS R) 1 [0] s) = Inl rc \<longrightarrow>
      fst (isMoving R servoId s) = False)
   \<and> (fst (readRegisters servoId (CURRENT_POSITION R) 2 [0, 0] s) = Inr [0, 0] \<longrightarrow>
      fst (getCurrentPosition R servoId s) = 0)
   \<and> (fst (sendMessage servoId READ 2 [registerId, readLength] (flush s)) \<noteq> 8 \<longrightarrow>
      fst (readRegisters servoId registerId readLength outputBuffer s) = Inl (- 1))
   \<and> (fst (sendMessage servoId READ 2 [registerId, readLength] (flush s)) = 8
      \<and> fst (receiveMessage servoId (readLength + 1) (replicate (unat readLength + 1) 0)
                (snd (sendMessage servoId READ 2 [registerId, readLength] (flush s))))
          = Inl rc \<longrightarrow>
      fst (readRegisters servoId registerId readLength outputBuffer s) = Inl rc)"
  by (simp add: readRegister_fst readTwoBytesRegister_fst getCurrentPosition_def
      getCurrentSpeed_def getCurrentTemperature_def isMoving_def split_beta signedVel_0
      readRegisters_fst [of servoId registerId readLength] fromTwoBytes_def)


theorem read_failure_returns_zero_witness:
  "fst (readRegisters 1 (CURRENT_POSITION example_registers) 2 [0, 0] (bus quiet_line []))
     = Inl (- 1)
   \<and> fst (getCurrentPosition example_registers 1 (bus quiet_line [])) = 0
   \<and> fst (readRegisters 1 (CURRENT_POSITION example_registers) 2 [0, 0]
          (bus (reply_line [0xFF, 0xFF, 0x01, 0x04, 0x00, 0x34, 0x12, 0x00]) [])) = Inl (- 3)
   \<and> fst (getCurrentPosition example_registers 1
          (bus (reply_line [0xFF, 0xFF, 0x01, 0x04, 0x00, 0x34, 0x12, 0x00]) [])) = 0
   \<and> fst (readRegisters 1 (CURRENT_POSITION example_registers) 2 [0, 0]
          (bus (reply_line [0xFF, 0xFF, 0x01, 0x04, 0x00, 0x00, 0x00, 0xFA]) [])) = Inr [0, 0]
   \<and> fst (getCurrentPosition example_registers 1
          (bus (reply_line [0xFF, 0xFF, 0x01, 0x04, 0x00, 0x00, 0x00, 0xFA]) [])) = 0
   \<and> fst (sendMessage 1 READ 2 [CURRENT_POSITION example_registers, 2]
          (flush (bus lossy_line []))) \<noteq> 8
   \<and> fst (readRegisters 1 (CURRENT_POSITION example_registers) 2 [0, 0] (bus lossy_line []))
     = Inl (- 1)"
proof -
  have a: "fst (readRegisters 1 (CURRENT_POSITION example_registers) 2 [0, 0]
      (bus quiet_line [])) = Inl (- 1)"
    by (simp add: readRegisters_fst flush_eq sendMessage_eq receiveMessage_fst Let_def bus_def
        quiet_line_def READ_def example_registers_def)
  have b: "fst (readRegisters 1 (CURRENT_POSITION example_registers) 2 [0, 0]
      (bus (reply_line [0xFF, 0xFF, 0x01, 0x04, 0x00, 0x34, 0x12, 0x00]) [])) = Inl (- 3)"
    by (simp add: readRegisters_fst flush_eq sendMessage_eq receiveMessage_fst Let_def bus_def
        reply_line_def READ_def example_registers_def receiveMessage_sum.simps)
  have c: "fst (readRegisters 1 (CURRENT_POSITION example_registers) 2 [0, 0]
      (bus (reply_line [0xFF, 0xFF, 0x01, 0x04, 0x00, 0x00, 0x00, 0xFA]) [])) = Inr [0, 0]"
    by (simp add: readRegisters_fst flush_eq sendMessage_eq receiveMessage_fst Let_def bus_def
        reply_line_def READ_def example_registers_def receiveMessage_sum.simps copy_loop.simps)
  have d: "fst (sendMessage 1 READ 2 [CURRENT_POSITION example_registers, 2]
      (flush (bus lossy_line []))) \<noteq> 8"
    by (simp add: flush_eq sendMessage_eq Let_def bus_def lossy_line_def)
  show ?thesis
    using a b c d
      read_failure_returns_zero [where servoId = 1 and R = example_registers
        and s = "bus quiet_line []" and rc = "- 1"]
      read_failure_returns_zero [where servoId = 1 and R = example_registers
        and s = "bus (reply_line [0xFF, 0xFF, 0x01, 0x04, 0x00, 0x34, 0x12, 0x00]) []"
        and rc = "- 3"]
      read_failure_returns_zero [where servoId = 1 and R = example_registers
        and s = "bus (reply_line [0xFF, 0xFF, 0x01, 0x04, 0x00, 0x00, 0x00, 0xFA]) []"]
      read_failure_returns_zero [where servoId = 1 and R = example_registers
        and s = "bus lossy_line []" and registerId = "CURRENT_POSITION example_registers"
        and readLength = 2 and outputBuffer = "[0, 0]"]
    by simp
qed

end
